theory Spec2Isabelle
  imports Main "HOL-Library.Monad_Syntax"
begin

section \<open>JavaScript strings and values\<close>

text \<open>
  A JavaScript string is a sequence of UTF-16 code units. Every table of the library is
  written in characters of the Basic Multilingual Plane, one code unit each, and the
  library does no arithmetic on code units, so a code unit is modelled as a natural
  number and a string as a list of them. Literals are given by their code points
  (\<open>0x907\<close> is DEVANAGARI LETTER I); ASCII text is written with \<open>ascii\<close>.
\<close>

type_synonym jstring = "nat list"

definition ascii :: "string \<Rightarrow> jstring" where
  "ascii s = map of_char s"

text \<open>
  The values a dynamically typed argument can hold. \<open>JObject\<close> stands for any object
  without string methods (plain objects, arrays).
\<close>

datatype js_value =
    JNull
  | JUndefined
  | JBool bool
  | JNumber int
  | JNaN
  | JString jstring
  | JObject

text \<open>ToBoolean: \<open>!v\<close> holds exactly when \<open>truthy v\<close> fails.\<close>

fun truthy :: "js_value \<Rightarrow> bool" where
  "truthy JNull = False"
| "truthy JUndefined = False"
| "truthy (JBool b) = b"
| "truthy (JNumber n) = (n \<noteq> 0)"
| "truthy JNaN = False"
| "truthy (JString s) = (s \<noteq> [])"
| "truthy JObject = True"

datatype js_error = TypeError | ReferenceError

text \<open>
  The two built-ins whose result depends on Unicode tables,
  \<open>String.prototype.normalize('NFC')\<close> and \<open>String.prototype.toLowerCase\<close>, are
  parameters of the model. \<open>plain_host\<close> is the host restricted to strings that are
  already in normal form C and have no cased letters, which is the case for every
  Devanagari string evaluated in this theory: both built-ins return such a string unchanged.
\<close>

record host =
  normalizeNFC :: "jstring \<Rightarrow> jstring"
  toLowerCase :: "jstring \<Rightarrow> jstring"

definition plain_host :: host where
  "plain_host = \<lparr> normalizeNFC = (\<lambda>s. s), toLowerCase = (\<lambda>s. s) \<rparr>"

text \<open>
  White space as \<open>\s\<close> and \<open>String.prototype.trim\<close> see it: the WhiteSpace and
  LineTerminator code points of ECMAScript.
\<close>

definition WhiteSpace :: "nat \<Rightarrow> bool" where
  "WhiteSpace c \<longleftrightarrow>
     c \<in> {0x9, 0xA, 0xB, 0xC, 0xD, 0x20, 0xA0, 0x1680, 0x2028, 0x2029, 0x202F, 0x205F, 0x3000, 0xFEFF}
     \<or> (0x2000 \<le> c \<and> c \<le> 0x200A)"

definition trim :: "jstring \<Rightarrow> jstring" where
  "trim s = rev (dropWhile WhiteSpace (rev (dropWhile WhiteSpace s)))"

definition endsWith :: "jstring \<Rightarrow> jstring \<Rightarrow> bool" where
  "endsWith s p \<longleftrightarrow> length p \<le> length s \<and> drop (length s - length p) s = p"

text \<open>
  \<open>s.slice(a, b)\<close>: a negative index counts from the end, both ends are clamped to the
  string, and the result is empty when the end does not lie after the start.
\<close>

definition slice :: "jstring \<Rightarrow> int \<Rightarrow> int \<Rightarrow> jstring" where
  "slice s a b =
     (let n = int (length s);
          from = (if a < 0 then max (n + a) 0 else min a n);
          to = (if b < 0 then max (n + b) 0 else min b n)
      in take (nat (to - from)) (drop (nat from) s))"

text \<open>\<open>s.slice(a)\<close>, \<open>s.substring(a, b)\<close> with \<open>0 \<le> a \<le> b\<close>, and \<open>s.substr(a, n)\<close> with \<open>0 \<le> a\<close>.\<close>

definition slice_from :: "jstring \<Rightarrow> int \<Rightarrow> jstring" where
  "slice_from s a = slice s a (int (length s))"

definition substring :: "jstring \<Rightarrow> nat \<Rightarrow> nat \<Rightarrow> jstring" where
  "substring s a b = take (min b (length s) - min a (length s)) (drop (min a (length s)) s)"

definition substr :: "jstring \<Rightarrow> nat \<Rightarrow> nat \<Rightarrow> jstring" where
  "substr s a n = take n (drop a s)"

text \<open>
  \<open>s.indexOf(p, from)\<close>: the least index at or after \<open>from\<close> where \<open>p\<close> occurs,
  \<open>None\<close> for \<open>-1\<close>. The empty string occurs at every index up to the length.
\<close>

fun indexOf_scan :: "jstring \<Rightarrow> jstring \<Rightarrow> nat \<Rightarrow> nat option" where
  "indexOf_scan p [] i = (if p = [] then Some i else None)"
| "indexOf_scan p (x # xs) i =
     (if take (length p) (x # xs) = p then Some i else indexOf_scan p xs (Suc i))"

definition indexOf :: "jstring \<Rightarrow> jstring \<Rightarrow> nat \<Rightarrow> nat option" where
  "indexOf s p from = (let k = min from (length s) in indexOf_scan p (drop k s) k)"

definition includes_str :: "jstring \<Rightarrow> jstring \<Rightarrow> bool" where
  "includes_str s p \<longleftrightarrow> indexOf s p 0 \<noteq> None"

text \<open>
  \<open>s.replace(/p/g, r)\<close> for a non-empty literal pattern \<open>p\<close>: every occurrence, found
  from the left without overlap, is replaced.
\<close>

function replaceAll :: "jstring \<Rightarrow> jstring \<Rightarrow> jstring \<Rightarrow> jstring" where
  "replaceAll p r [] = []"
| "replaceAll p r (x # xs) =
     (if p \<noteq> [] \<and> take (length p) (x # xs) = p
      then r @ replaceAll p r (drop (length p) (x # xs))
      else x # replaceAll p r xs)"
  by pat_completeness auto
termination
  by (relation "measure (\<lambda>(p, r, s). length s)") (auto simp: neq_Nil_conv)


section \<open>The pratika identifier\<close>

text \<open>
  The object \<open>identifyPratika\<close> returns. A field that the code sets to \<open>null\<close> is
  \<open>None\<close>.
\<close>

record PratikaAnalysis =
  isPratika :: bool
  originalText :: jstring
  stem :: "jstring option"
  pattern :: "jstring option"
  patternDescription :: jstring
  itiEnding :: "jstring option"
  confidence :: nat

definition iti :: jstring where
  "iti = [0x907, 0x924, 0x93F]"

text \<open>The three tests of the entry gate, in the order of the source:
  \<open>/[<sign-i><sign-ii><sign-e>]<ta><sign-i>$/\<close>, \<open>/\s+<i><ta><sign-i>$/\<close> and
  \<open>/^[^<sign-i><sign-ii><sign-e>]+<i><ta><sign-i>$/\<close>.\<close>

definition endsWithMarkTi :: "jstring \<Rightarrow> bool" where
  "endsWithMarkTi s \<longleftrightarrow>
     (case rev s of c3 # c2 # c1 # _ \<Rightarrow> c1 \<in> {0x93F, 0x940, 0x947} \<and> c2 = 0x924 \<and> c3 = 0x93F | _ \<Rightarrow> False)"

definition endsWithSpaceIti :: "jstring \<Rightarrow> bool" where
  "endsWithSpaceIti s \<longleftrightarrow>
     endsWith s iti \<and> (case rev (take (length s - 3) s) of [] \<Rightarrow> False | c # _ \<Rightarrow> WhiteSpace c)"

definition unmarkedBeforeIti :: "jstring \<Rightarrow> bool" where
  "unmarkedBeforeIti s \<longleftrightarrow>
     endsWith s iti \<and> take (length s - 3) s \<noteq> [] \<and>
     (\<forall>c \<in> set (take (length s - 3) s). c \<notin> {0x93F, 0x940, 0x947})"

text \<open>\<open>s.replace(/\s+<i><ta><sign-i>$/, '')\<close>: the leftmost match starts where the run of
  white space before the final word begins, so the word and the whole run are removed.\<close>

definition removeSpaceIti :: "jstring \<Rightarrow> jstring" where
  "removeSpaceIti s =
     (if endsWithSpaceIti s then rev (dropWhile WhiteSpace (rev (take (length s - 3) s))) else s)"

definition endsWithVowelMark :: "jstring \<Rightarrow> bool" where
  "endsWithVowelMark w \<longleftrightarrow> w \<noteq> [] \<and> last w \<in> {0x93E, 0x93F, 0x940, 0x941, 0x942, 0x943, 0x944, 0x962, 0x963, 0x947, 0x948, 0x94B, 0x94C}"

definition endsWithVisargaOrAnusvara :: "jstring \<Rightarrow> bool" where
  "endsWithVisargaOrAnusvara w \<longleftrightarrow> w \<noteq> [] \<and> last w \<in> {0x903, 0x902, 0x901}"

text \<open>The consonant class tested before \<open>sign-o\<close> (an unanchored test on a string of at
  most one code unit).\<close>

definition test_consonant :: "jstring \<Rightarrow> bool" where
  "test_consonant s \<longleftrightarrow> (\<exists>c \<in> set s. c \<in> {0x915, 0x916, 0x917, 0x918, 0x919, 0x91A, 0x91B, 0x91C, 0x91D, 0x91E, 0x91F, 0x920, 0x921, 0x922, 0x923, 0x924, 0x925, 0x926, 0x927, 0x928, 0x92A, 0x92B, 0x92C, 0x92D, 0x92E, 0x92F, 0x930, 0x932, 0x935, 0x936, 0x937, 0x938, 0x939})"

text \<open>
  The cascade of suffix rules. Every test reads the trimmed text itself; the result is
  the restored word, the rule's name, its description and its confidence.
\<close>

definition applySuffixRules :: "jstring \<Rightarrow> jstring \<times> jstring \<times> jstring \<times> nat" where
  "applySuffixRules trimmedText =
  (if endsWith trimmedText [0x92F, 0x94D, 0x935, 0x93F, 0x924, 0x93F] then \<comment> \<open>ya virama va sign-i ta sign-i\<close>
     (slice trimmedText 0 (- 6) @ [0x92F, 0x941],
      ascii ''yaviti'',
      ascii ''YU ('' @ [0x92F, 0x941] @ ascii '') + '' @ [0x907, 0x924, 0x93F] @ ascii '' '' @ [0x2192] @ ascii '' '' @ [0x92F, 0x94D, 0x935, 0x93F, 0x924, 0x93F] @ ascii '' sandhi'',
      85)
   else if endsWith trimmedText [0x93E, 0x935, 0x93F, 0x924, 0x93F] then \<comment> \<open>sign-aa va sign-i ta sign-i\<close>
     (slice trimmedText 0 (- 5) @ [0x94C],
      ascii ''aaviti'',
      ascii ''AU ('' @ [0x94C] @ ascii '') + '' @ [0x907, 0x924, 0x93F] @ ascii '' '' @ [0x2192] @ ascii '' '' @ [0x93E, 0x935, 0x93F, 0x924, 0x93F] @ ascii '' sandhi'',
      85)
   else if endsWith trimmedText [0x938, 0x94D, 0x92F, 0x947, 0x924, 0x93F] then \<comment> \<open>sa virama ya sign-e ta sign-i\<close>
     (slice trimmedText 0 (- 4) @ [0x92F],
      ascii ''syeti'',
      ascii ''Genitive singular + '' @ [0x907, 0x924, 0x93F],
      90)
   else if endsWith trimmedText [0x93E, 0x92F, 0x947, 0x924, 0x93F] then \<comment> \<open>sign-aa ya sign-e ta sign-i\<close>
     (slice trimmedText 0 (- 5),
      ascii ''aayeti'',
      ascii ''Dative singular + '' @ [0x907, 0x924, 0x93F],
      80)
   else if endsWith trimmedText [0x92D, 0x93F, 0x930, 0x93F, 0x924, 0x93F] then \<comment> \<open>bha sign-i ra sign-i ta sign-i\<close>
     (if (let beforePattern = slice trimmedText 0 (- 6) in
       beforePattern \<noteq> [] \<and> \<not> endsWith beforePattern [0x943] \<and> \<not> endsWith beforePattern [0x944])
      then (slice trimmedText 0 (- 6) @ [0x92D, 0x93F, 0x903],
           ascii ''bhiriti-visarga'',
           ascii ''Instrumental plural ('' @ [0x903] @ ascii '' '' @ [0x2192] @ ascii '' '' @ [0x930] @ ascii '' sandhi) + '' @ [0x907, 0x924, 0x93F],
           90)
      else (slice trimmedText 0 (- 6) @ [0x92D, 0x93F, 0x930],
           ascii ''bhiriti'',
           ascii ''Instrumental plural + '' @ [0x907, 0x924, 0x93F],
           90))
   else if endsWith trimmedText [0x92E, 0x93F, 0x924, 0x93F] then \<comment> \<open>ma sign-i ta sign-i\<close>
     (slice trimmedText 0 (- 4) @ [0x92E, 0x94D],
      ascii ''miti'',
      ascii ''Accusative singular ('' @ [0x92E, 0x94D] @ ascii '') + '' @ [0x907, 0x924, 0x93F],
      85)
   else if endsWith trimmedText [0x926, 0x93F, 0x924, 0x93F] then \<comment> \<open>da sign-i ta sign-i\<close>
     (slice trimmedText 0 (- 4) @ [0x924, 0x94D],
      ascii ''diti'',
      [0x924, 0x94D] @ ascii '' + '' @ [0x907, 0x924, 0x93F] @ ascii '' '' @ [0x2192] @ ascii '' '' @ [0x926, 0x93F, 0x924, 0x93F] @ ascii '' sandhi'',
      85)
   else if endsWith trimmedText [0x930, 0x93F, 0x924, 0x93F] then \<comment> \<open>ra sign-i ta sign-i\<close>
     (if (let before_ch = slice trimmedText (- 5) (- 4) in before_ch = [0x943] \<or> before_ch = [0x944])
      then (slice trimmedText 0 (- 4),
           ascii ''riti-rvowel'',
           ascii ''R vowel + '' @ [0x907, 0x924, 0x93F],
           80)
      else (slice trimmedText 0 (- 4) @ [0x903],
           ascii ''riti-visarga'',
           ascii ''Visarga ('' @ [0x903] @ ascii '') + '' @ [0x907, 0x924, 0x93F] @ ascii '' '' @ [0x2192] @ ascii '' '' @ [0x930, 0x93F, 0x924, 0x93F] @ ascii '' sandhi'',
           88))
   else if endsWith trimmedText [0x92F, 0x947, 0x92D, 0x94D, 0x92F, 0x930, 0x93F, 0x924, 0x93F] then \<comment> \<open>ya sign-e bha virama ya ra sign-i ta sign-i\<close>
     (slice trimmedText 0 (- 8) @ [0x92F, 0x947, 0x92D, 0x94D, 0x92F, 0x903],
      ascii ''yebhyariti'',
      ascii ''Dative/ablative plural + '' @ [0x907, 0x924, 0x93F],
      95)
   else if endsWith trimmedText [0x947, 0x92D, 0x94D, 0x92F, 0x930, 0x93F, 0x924, 0x93F] then \<comment> \<open>sign-e bha virama ya ra sign-i ta sign-i\<close>
     (slice trimmedText 0 (- 8) @ [0x947, 0x92D, 0x94D, 0x92F, 0x903],
      ascii ''ebhyariti'',
      ascii ''Dative/ablative plural + '' @ [0x907, 0x924, 0x93F],
      95)
   else if endsWith trimmedText [0x92D, 0x94D, 0x92F, 0x93E, 0x92E, 0x93F, 0x924, 0x93F] then \<comment> \<open>bha virama ya sign-aa ma sign-i ta sign-i\<close>
     (slice trimmedText 0 (- 7),
      ascii ''bhyaamiti'',
      ascii ''Dual instrumental/dative/ablative + '' @ [0x907, 0x924, 0x93F],
      95)
   else if endsWith trimmedText [0x93E, 0x928, 0x93E, 0x92E, 0x93F, 0x924, 0x93F] then \<comment> \<open>sign-aa na sign-aa ma sign-i ta sign-i\<close>
     (slice trimmedText 0 (- 7),
      ascii ''aanaamiti'',
      ascii ''Genitive plural + '' @ [0x907, 0x924, 0x93F],
      95)
   else if endsWith trimmedText [0x923, 0x93E, 0x92E, 0x93F, 0x924, 0x93F] then \<comment> \<open>nna sign-aa ma sign-i ta sign-i\<close>
     (slice trimmedText 0 (- 6),
      ascii ''naamiti'',
      ascii ''Genitive plural feminine + '' @ [0x907, 0x924, 0x93F],
      95)
   else if endsWith trimmedText [0x92F, 0x93E, 0x92E, 0x93F, 0x924, 0x93F] then \<comment> \<open>ya sign-aa ma sign-i ta sign-i\<close>
     (slice trimmedText 0 (- 6),
      ascii ''yaamiti'',
      ascii ''Locative feminine singular + '' @ [0x907, 0x924, 0x93F],
      95)
   else if endsWith trimmedText [0x92F, 0x93E, 0x930, 0x93F, 0x924, 0x93F] then \<comment> \<open>ya sign-aa ra sign-i ta sign-i\<close>
     (slice trimmedText 0 (- 5) @ [0x92F, 0x93E, 0x903],
      ascii ''yaar'' @ [0x93F, 0x924, 0x93F],
      ascii ''Genitive/ablative feminine + '' @ [0x907, 0x924, 0x93F],
      90)
   else if endsWith trimmedText [0x947, 0x923, 0x947, 0x924, 0x93F] then \<comment> \<open>sign-e nna sign-e ta sign-i\<close>
     (slice trimmedText 0 (- 4),
      ascii ''eneti'',
      ascii ''Instrumental singular + '' @ [0x907, 0x924, 0x93F],
      90)
   else if endsWith trimmedText [0x94B, 0x930, 0x93F, 0x924, 0x93F] then \<comment> \<open>sign-o ra sign-i ta sign-i\<close>
     (slice trimmedText 0 (- 5) @ [0x94B, 0x903],
      ascii ''oriti'',
      ascii ''Dual genitive/locative + '' @ [0x907, 0x924, 0x93F],
      90)
   else if endsWith trimmedText [0x937, 0x94D, 0x935, 0x93F, 0x924, 0x93F] then \<comment> \<open>ssa virama va sign-i ta sign-i\<close>
     (slice trimmedText 0 (- 5),
      ascii ''shviti'',
      ascii ''Locative plural + '' @ [0x907, 0x924, 0x93F],
      85)
   else if endsWith trimmedText [0x938, 0x94D, 0x935, 0x93F, 0x924, 0x93F] then \<comment> \<open>sa virama va sign-i ta sign-i\<close>
     (slice trimmedText 0 (- 5),
      ascii ''sviti'',
      ascii ''Locative plural feminine + '' @ [0x907, 0x924, 0x93F],
      85)
   else if endsWith trimmedText [0x948, 0x930, 0x93F, 0x924, 0x93F] then \<comment> \<open>sign-ai ra sign-i ta sign-i\<close>
     (slice trimmedText 0 (- 5) @ [0x948, 0x903],
      ascii ''airiti'',
      ascii ''Instrumental plural + '' @ [0x907, 0x924, 0x93F],
      85)
   else if endsWith trimmedText [0x93E, 0x928, 0x93F, 0x924, 0x93F] then \<comment> \<open>sign-aa na sign-i ta sign-i\<close>
     (slice trimmedText 0 (- 5),
      ascii ''aaniti'',
      ascii ''Accusative plural + '' @ [0x907, 0x924, 0x93F],
      80)
   else if endsWith trimmedText [0x93E, 0x928, 0x940, 0x924, 0x93F] then \<comment> \<open>sign-aa na sign-ii ta sign-i\<close>
     (slice trimmedText 0 (- 6),
      ascii ''aaneeiti'',
      ascii ''Accusative plural ('' @ [0x93E, 0x928, 0x93F] @ ascii '') + '' @ [0x907, 0x924, 0x93F],
      80)
   else if endsWith trimmedText [0x94B, 0x924, 0x93F] then \<comment> \<open>sign-o ta sign-i\<close>
     (if (let beforeO = slice trimmedText (- 4) (- 3) in beforeO \<noteq> [] \<and> test_consonant beforeO)
      then (slice trimmedText 0 (- 3) @ [0x903],
           ascii ''oti-visarga'',
           ascii ''Visarga ('' @ [0x903] @ ascii '') + '' @ [0x907, 0x924, 0x93F] @ ascii '' '' @ [0x2192] @ ascii '' '' @ [0x94B, 0x924, 0x93F] @ ascii '' sandhi'',
           70)
      else (slice trimmedText 0 (- 3),
           ascii ''oti'',
           ascii ''O vowel + '' @ [0x907, 0x924, 0x93F],
           65))
   else if endsWith trimmedText [0x947, 0x924, 0x93F] then \<comment> \<open>sign-e ta sign-i\<close>
     (slice trimmedText 0 (- 3),
      ascii ''eti'',
      ascii ''A vowel or stem + '' @ [0x907, 0x924, 0x93F],
      65)
   else if endsWith trimmedText [0x940, 0x924, 0x93F] then \<comment> \<open>sign-ii ta sign-i\<close>
     (slice trimmedText 0 (- 3),
      ascii ''eeti'',
      ascii ''I vowel + '' @ [0x907, 0x924, 0x93F],
      70)
   else if endsWith trimmedText [0x942, 0x924, 0x93F] then \<comment> \<open>sign-uu ta sign-i\<close>
     (slice trimmedText 0 (- 3),
      ascii ''ooti'',
      ascii ''U vowel + '' @ [0x907, 0x924, 0x93F],
      70)
   else if endsWith trimmedText [0x948, 0x924, 0x93F] then \<comment> \<open>sign-ai ta sign-i\<close>
     (slice trimmedText 0 (- 3),
      ascii ''aiti'',
      ascii ''E/AI vowel + '' @ [0x907, 0x924, 0x93F],
      70)
   else if endsWith trimmedText [0x94C, 0x924, 0x93F] then \<comment> \<open>sign-au ta sign-i\<close>
     (slice trimmedText 0 (- 3),
      ascii ''auti'',
      ascii ''AU dual + '' @ [0x907, 0x924, 0x93F],
      70)
   else if endsWith trimmedText [0x932, 0x93F, 0x924, 0x93F] then \<comment> \<open>la sign-i ta sign-i\<close>
     (slice trimmedText 0 (- 4),
      ascii ''liti'',
      ascii ''L vowel + '' @ [0x907, 0x924, 0x93F],
      80)
   else if endsWith trimmedText [0x935, 0x93F, 0x924, 0x93F] then \<comment> \<open>va sign-i ta sign-i\<close>
     (slice trimmedText 0 (- 4),
      ascii ''viti'',
      ascii ''U vowel + '' @ [0x907, 0x924, 0x93F],
      75)
   else if endsWith trimmedText [0x92F, 0x947, 0x924, 0x93F] then \<comment> \<open>ya sign-e ta sign-i\<close>
     (slice trimmedText 0 (- 4),
      ascii ''yeti'',
      ascii ''Instrumental/dative singular + '' @ [0x907, 0x924, 0x93F],
      75)
   else
     (slice trimmedText 0 (- 3),
      ascii ''generic'',
      ascii ''Generic stem + '' @ [0x907, 0x924, 0x93F],
      60))
"

definition notPratika :: "jstring \<Rightarrow> jstring \<Rightarrow> PratikaAnalysis" where
  "notPratika trimmedText why =
     \<lparr> isPratika = False, originalText = trimmedText, stem = None, pattern = None,
       patternDescription = why, itiEnding = None, confidence = 0 \<rparr>"

text \<open>
  \<open>identifyPratika\<close> on a string. The result \<open>None\<close> is the \<open>null\<close> that the function
  returns for the empty string.
\<close>

definition identifyPratika :: "host \<Rightarrow> jstring \<Rightarrow> PratikaAnalysis option" where
  "identifyPratika h text =
     (if text = [] then None
      else
        let trimmedText = normalizeNFC h (trim text) in
        if \<not> endsWithMarkTi trimmedText \<and> \<not> endsWithSpaceIti trimmedText
           \<and> \<not> unmarkedBeforeIti trimmedText
        then Some (notPratika trimmedText
          (ascii ''Only words ending with '' @ [0x907, 0x924, 0x93F] @ ascii '', '' @ [0x93F, 0x924, 0x93F] @ ascii '', '' @ [0x940, 0x924, 0x93F] @ ascii '', or '' @ [0x947, 0x924, 0x93F] @ ascii '' qualify as pratikas''))
        else if endsWithSpaceIti trimmedText then
          (let wordBeforeIti = trim (removeSpaceIti trimmedText) in
           if endsWithVowelMark wordBeforeIti \<or> endsWithVisargaOrAnusvara wordBeforeIti
           then Some (notPratika trimmedText
             (ascii ''Space-separated '' @ [0x907, 0x924, 0x93F] @ ascii '' with explicit vowel/visarga is not a pratika''))
           else Some
             \<lparr> isPratika = True, originalText = trimmedText, stem = Some wordBeforeIti,
               pattern = Some (ascii ''space-iti-inherent-a''),
               patternDescription = ascii ''Space + '' @ [0x907, 0x924, 0x93F] @ ascii '' after consonant (inherent '' @ [0x905] @ ascii '' sandhi)'',
               itiEnding = Some (ascii '' '' @ [0x907, 0x924, 0x93F]), confidence = 75 \<rparr>)
        else
          (case applySuffixRules trimmedText of
             (working, pat, description, conf) \<Rightarrow>
               let stem = normalizeNFC h working in
               if length stem < 2
               then Some (notPratika trimmedText
                 (ascii ''Stem too short - likely a regular word, not a pratika''))
               else Some
                 \<lparr> isPratika = True, originalText = trimmedText, stem = Some stem,
                   pattern = Some pat, patternDescription = description,
                   itiEnding = Some (slice_from trimmedText (int (length working))),
                   confidence = conf \<rparr>))"

text \<open>
  \<open>identifyPratika\<close> on any value: \<open>null\<close> unless the argument is a non-empty string.
\<close>

definition identifyPratika_value :: "host \<Rightarrow> js_value \<Rightarrow> PratikaAnalysis option" where
  "identifyPratika_value h v =
     (if \<not> truthy v then None
      else case v of JString text \<Rightarrow> identifyPratika h text | _ \<Rightarrow> None)"


section \<open>The iti-quotation sandhi map\<close>

text \<open>
  An object literal keeps its keys in the order in which they first appear, and a key
  written twice keeps its place with the later value. \<open>object_literal\<close> builds the
  association list of a literal from its entries as written.
\<close>

fun obj_set :: "('k \<times> 'v) list \<Rightarrow> 'k \<Rightarrow> 'v \<Rightarrow> ('k \<times> 'v) list" where
  "obj_set [] k v = [(k, v)]"
| "obj_set ((k', v') # kvs) k v = (if k' = k then (k, v) # kvs else (k', v') # obj_set kvs k v)"

definition object_literal :: "('k \<times> 'v) list \<Rightarrow> ('k \<times> 'v) list" where
  "object_literal entries = foldl (\<lambda>obj (k, v). obj_set obj k v) [] entries"

text \<open>\<open>obj[k]\<close> for a key of the object; a list stands for a string as well as for an array, and
  the empty list is returned for a key that is absent, which never happens below.\<close>

definition lookup :: "('k \<times> 'a list) list \<Rightarrow> 'k \<Rightarrow> 'a list" where
  "lookup obj k = (case map_of obj k of Some v \<Rightarrow> v | None \<Rightarrow> [])"

record ItiSandhiMap =
  reverse :: "(jstring \<times> jstring list) list"
  forward :: "(jstring \<times> jstring) list"

definition createItiSandhiMap :: ItiSandhiMap where
  "createItiSandhiMap = \<lparr>
    reverse = object_literal [
      ([0x947, 0x924, 0x93F], [[], [0x905], [0x906]]),
      ([0x940, 0x924, 0x93F], [[0x907], [0x908]]),
      ([0x942, 0x924, 0x93F], [[0x909], [0x90A]]),
      ([0x935, 0x940, 0x924, 0x93F], [[0x909], [0x90A]]),
      ([0x935, 0x93F, 0x924, 0x93F], [[0x909], [0x90A]]),
      ([0x930, 0x93F, 0x924, 0x93F], [[0x90B], [0x960]]),
      ([0x932, 0x93F, 0x924, 0x93F], [[0x90C], [0x961]]),
      ([0x948, 0x924, 0x93F], [[0x90F], [0x948]]),
      ([0x93E, 0x935, 0x940, 0x924, 0x93F], [[0x913], [0x914]]),
      ([0x93E, 0x935, 0x93F, 0x924, 0x93F], [[0x913], [0x914]]),
      ([0x94B, 0x93D, 0x924, 0x93F], [[0x913]]),
      ([0x92F, 0x947, 0x924, 0x93F], [[0x92F], [0x92F, 0x93E], [0x93E, 0x92F]]),
      ([0x947, 0x923, 0x947, 0x924, 0x93F], [[0x947, 0x923]]),
      ([0x93E, 0x926, 0x93F, 0x924, 0x93F], [[0x93E, 0x924, 0x94D]]),
      ([0x938, 0x94D, 0x92F, 0x947, 0x924, 0x93F], [[0x938, 0x94D, 0x92F]]),
      ([0x92E, 0x93F, 0x924, 0x93F], [[0x92E, 0x94D], [0x93E, 0x92E, 0x94D]]),
      ([0x92F, 0x93E, 0x92E, 0x93F, 0x924, 0x93F], [[0x92F, 0x93E, 0x92E, 0x94D]]),
      ([0x94C, 0x924, 0x93F], [[0x914]]),
      ([0x94B, 0x930, 0x93F, 0x924, 0x93F], [[0x92F, 0x94B, 0x903]]),
      ([0x92D, 0x94D, 0x92F, 0x93E, 0x92E, 0x93F, 0x924, 0x93F], [[0x92D, 0x94D, 0x92F, 0x93E, 0x92E, 0x94D]]),
      ([0x93E, 0x928, 0x93F, 0x924, 0x93F], [[0x93E, 0x928, 0x94D]]),
      ([0x948, 0x930, 0x93F, 0x924, 0x93F], [[0x948, 0x903]]),
      ([0x92D, 0x93F, 0x930, 0x93F, 0x924, 0x93F], [[0x92D, 0x93F, 0x903]]),
      ([0x947, 0x92D, 0x94D, 0x92F, 0x930, 0x93F, 0x924, 0x93F], [[0x947, 0x92D, 0x94D, 0x92F, 0x903]]),
      ([0x93E, 0x928, 0x93E, 0x92E, 0x93F, 0x924, 0x93F], [[0x93E, 0x928, 0x93E, 0x92E, 0x94D]]),
      ([0x923, 0x93E, 0x92E, 0x93F, 0x924, 0x93F], [[0x923, 0x93E, 0x92E, 0x94D]]),
      ([0x937, 0x94D, 0x935, 0x93F, 0x924, 0x93F], [[0x947, 0x937, 0x941]]),
      ([0x938, 0x94D, 0x935, 0x93F, 0x924, 0x93F], [[0x938, 0x941]]),
      ([0x92F, 0x93E, 0x930, 0x93F, 0x924, 0x93F], [[0x92F, 0x93E, 0x903]]),
      ([0x93E, 0x903] @ ascii '' '' @ [0x907, 0x924, 0x93F], [[0x93E, 0x903]]),
      ([0x93E] @ ascii '' '' @ [0x907, 0x924, 0x93F], [[0x93E, 0x903]])],
    forward = object_literal [
      ([], [0x947, 0x924, 0x93F]),
      ([0x905], [0x947, 0x924, 0x93F]),
      ([0x906], [0x947, 0x924, 0x93F]),
      ([0x907], [0x940, 0x924, 0x93F]),
      ([0x908], [0x940, 0x924, 0x93F]),
      ([0x909], [0x935, 0x940, 0x924, 0x93F]),
      ([0x90A], [0x935, 0x940, 0x924, 0x93F]),
      ([0x90B], [0x930, 0x93F, 0x924, 0x93F]),
      ([0x960], [0x930, 0x93F, 0x924, 0x93F]),
      ([0x90C], [0x932, 0x93F, 0x924, 0x93F]),
      ([0x961], [0x932, 0x93F, 0x924, 0x93F]),
      ([0x90F], [0x948, 0x924, 0x93F]),
      ([0x947], [0x948, 0x924, 0x93F]),
      ([0x910], [0x948, 0x924, 0x93F]),
      ([0x948], [0x948, 0x924, 0x93F]),
      ([0x913], [0x93E, 0x935, 0x940, 0x924, 0x93F]),
      ([0x914], [0x93E, 0x935, 0x940, 0x924, 0x93F]),
      ([0x92F], [0x92F, 0x947, 0x924, 0x93F]),
      ([0x92F, 0x93E], [0x92F, 0x947, 0x924, 0x93F]),
      ([0x93E, 0x92F], [0x93E, 0x92F, 0x947, 0x924, 0x93F]),
      ([0x947, 0x923], [0x947, 0x923, 0x947, 0x924, 0x93F]),
      ([0x93E, 0x924, 0x94D], [0x93E, 0x926, 0x93F, 0x924, 0x93F]),
      ([0x938, 0x94D, 0x92F], [0x938, 0x94D, 0x92F, 0x947, 0x924, 0x93F]),
      ([0x92E, 0x94D], [0x92E, 0x93F, 0x924, 0x93F]),
      ([0x93E, 0x92E, 0x94D], [0x92E, 0x93F, 0x924, 0x93F]),
      ([0x92F, 0x93E, 0x92E, 0x94D], [0x92F, 0x93E, 0x92E, 0x93F, 0x924, 0x93F]),
      ([0x914], [0x94C, 0x924, 0x93F]),
      ([0x92F, 0x94B, 0x903], [0x94B, 0x930, 0x93F, 0x924, 0x93F]),
      ([0x92D, 0x94D, 0x92F, 0x93E, 0x92E, 0x94D], [0x92D, 0x94D, 0x92F, 0x93E, 0x92E, 0x93F, 0x924, 0x93F]),
      ([0x93E, 0x928, 0x94D], [0x93E, 0x928, 0x93F, 0x924, 0x93F]),
      ([0x948, 0x903], [0x948, 0x930, 0x93F, 0x924, 0x93F]),
      ([0x92D, 0x93F, 0x903], [0x92D, 0x93F, 0x930, 0x93F, 0x924, 0x93F]),
      ([0x947, 0x92D, 0x94D, 0x92F, 0x903], [0x947, 0x92D, 0x94D, 0x92F, 0x930, 0x93F, 0x924, 0x93F]),
      ([0x93E, 0x928, 0x93E, 0x92E, 0x94D], [0x93E, 0x928, 0x93E, 0x92E, 0x93F, 0x924, 0x93F]),
      ([0x923, 0x93E, 0x92E, 0x94D], [0x923, 0x93E, 0x92E, 0x93F, 0x924, 0x93F]),
      ([0x947, 0x937, 0x941], [0x937, 0x94D, 0x935, 0x93F, 0x924, 0x93F]),
      ([0x938, 0x941], [0x938, 0x94D, 0x935, 0x93F, 0x924, 0x93F]),
      ([0x92F, 0x93E, 0x903], [0x92F, 0x93E, 0x930, 0x93F, 0x924, 0x93F]),
      ([0x93E, 0x903], [0x93E, 0x903] @ ascii '' '' @ [0x907, 0x924, 0x93F])] \<rparr>"

text \<open>\<open>keys.sort((a, b) => b.length - a.length)\<close>: a stable sort, longest key first.\<close>

definition sortLongestFirst :: "jstring list \<Rightarrow> jstring list" where
  "sortLongestFirst ks = sort_key (\<lambda>k. - int (length k)) ks"

record Variation =
  v_text :: jstring
  v_rule :: jstring

text \<open>
  The candidates of \<open>generatePratikaVariations\<close>; the field \<open>pattern\<close> of a candidate
  is the field \<open>rule\<close> of \<open>Variation\<close>. First the reverse table: every key that ends
  the term contributes one candidate for each of its base endings.
\<close>

definition reverseCandidates :: "ItiSandhiMap \<Rightarrow> jstring \<Rightarrow> Variation list" where
  "reverseCandidates m searchTerm =
     concat (map (\<lambda>pat.
        if endsWith searchTerm pat
        then (let base = slice searchTerm 0 (- int (length pat)) in
              map (\<lambda>ending.
                 \<lparr> v_text = base @ ending,
                   v_rule = pat @ ascii ''->'' @ (if ending = [] then ascii ''stem'' else ending) \<rparr>)
                (lookup (reverse m) pat))
        else [])
       (sortLongestFirst (map fst (reverse m))))"

text \<open>The class of marks that forbids the implicit ending \<open>a\<close>; it is also the class of
  trailing marks of \<open>directSearch\<close>.\<close>

definition sanskritEndings :: "nat \<Rightarrow> bool" where
  "sanskritEndings c \<longleftrightarrow> c \<in> {0x902, 0x903, 0x901, 0x93E, 0x93F, 0x940, 0x941, 0x942, 0x947, 0x948, 0x94B, 0x94C, 0x943, 0x944, 0x962, 0x963, 0x94D, 0x1CF5, 0x1CF6}"

definition forwardCandidates :: "ItiSandhiMap \<Rightarrow> jstring \<Rightarrow> Variation list" where
  "forwardCandidates m searchTerm =
     (if endsWith searchTerm [0x924, 0x93F] then []
      else concat (map (\<lambda>ending.
        let quoted = lookup (forward m) ending in
        if ending = [] then
          (if searchTerm \<noteq> [] \<and> \<not> sanskritEndings (last searchTerm)
           then [\<lparr> v_text = searchTerm @ quoted, v_rule = ascii ''stem->'' @ quoted \<rparr>]
           else [])
        else if endsWith searchTerm ending then
          [\<lparr> v_text = slice searchTerm 0 (- int (length ending)) @ quoted,
             v_rule = ending @ ascii ''->'' @ quoted \<rparr>]
        else [])
       (sortLongestFirst (map fst (forward m)))))"

definition generatePratikaVariations :: "ItiSandhiMap \<Rightarrow> jstring \<Rightarrow> Variation list" where
  "generatePratikaVariations m searchTerm = reverseCandidates m searchTerm @ forwardCandidates m searchTerm"


section \<open>The sandhi rules\<close>

record SandhiRule =
  pattern_r :: jstring
  following :: jstring
  result :: jstring
  rule_r :: jstring

text \<open>
  An ending variation. Its pattern in the source is a regular expression made of a literal
  followed by \<open>$\<close>; \<open>suffix_e\<close> is the literal.
\<close>

record EndingVariation =
  suffix_e :: jstring
  variations :: "jstring list"
  rule_e :: jstring

record SanskritSandhiRules =
  vowelSandhi :: "SandhiRule list"
  consonantSandhi :: "SandhiRule list"
  visargaSandhi :: "SandhiRule list"
  endingVariations :: "EndingVariation list"

definition new_SanskritSandhiRules :: SanskritSandhiRules where
  "new_SanskritSandhiRules = \<lparr>
    vowelSandhi = [
     \<lparr> pattern_r = [0x905], following = [0x905], result = [0x906], rule_r = ascii ''a+a='' @ [0x101] \<rparr>,
     \<lparr> pattern_r = [0x905], following = [0x907], result = [0x90F], rule_r = ascii ''a+i=e'' \<rparr>,
     \<lparr> pattern_r = [0x905], following = [0x909], result = [0x913], rule_r = ascii ''a+u=o'' \<rparr>,
     \<lparr> pattern_r = [0x905], following = [0x90B], result = [0x905, 0x930, 0x94D], rule_r = ascii ''a+'' @ [0x1E5B] @ ascii ''=ar'' \<rparr>,
     \<lparr> pattern_r = [0x906], following = [0x907], result = [0x910], rule_r = [0x101] @ ascii ''+i=ai'' \<rparr>,
     \<lparr> pattern_r = [0x906], following = [0x909], result = [0x914], rule_r = [0x101] @ ascii ''+u=au'' \<rparr>,
     \<lparr> pattern_r = [0x907], following = [0x905], result = [0x92F], rule_r = ascii ''i+a=ya'' \<rparr>,
     \<lparr> pattern_r = [0x909], following = [0x905], result = [0x935], rule_r = ascii ''u+a=va'' \<rparr>,
     \<lparr> pattern_r = [0x90B], following = [0x905], result = [0x930], rule_r = [0x1E5B] @ ascii ''+a=ra'' \<rparr>,
     \<lparr> pattern_r = [0x90F], following = [0x905], result = [0x90F], rule_r = ascii ''e+a=e'' \<rparr>,
     \<lparr> pattern_r = [0x913], following = [0x905], result = [0x913], rule_r = ascii ''o+a=o'' \<rparr>],
    consonantSandhi = [
     \<lparr> pattern_r = [0x924, 0x94D], following = [0x91A], result = [0x91A, 0x94D, 0x91A], rule_r = ascii ''t+c=cc'' \<rparr>,
     \<lparr> pattern_r = [0x924, 0x94D], following = [0x91C], result = [0x91C, 0x94D, 0x91C], rule_r = ascii ''t+j=jj'' \<rparr>,
     \<lparr> pattern_r = [0x924, 0x94D], following = [0x936], result = [0x91A, 0x94D, 0x91B], rule_r = ascii ''t+'' @ [0x15B] @ ascii ''=cch'' \<rparr>,
     \<lparr> pattern_r = [0x926, 0x94D], following = [0x91A], result = [0x91A, 0x94D, 0x91A], rule_r = ascii ''d+c=cc'' \<rparr>,
     \<lparr> pattern_r = [0x928, 0x94D], following = [0x91A], result = [0x91E, 0x94D, 0x91A], rule_r = ascii ''n+c='' @ [0xF1] @ ascii ''c'' \<rparr>,
     \<lparr> pattern_r = [0x928, 0x94D], following = [0x91C], result = [0x91E, 0x94D, 0x91C], rule_r = ascii ''n+j='' @ [0xF1] @ ascii ''j'' \<rparr>,
     \<lparr> pattern_r = [0x92E, 0x94D], following = [0x92A], result = [0x92E, 0x94D, 0x92A], rule_r = ascii ''m+p=mp'' \<rparr>,
     \<lparr> pattern_r = [0x92E, 0x94D], following = [0x92C], result = [0x92E, 0x94D, 0x92C], rule_r = ascii ''m+b=mb'' \<rparr>],
    visargaSandhi = [
     \<lparr> pattern_r = [0x903], following = [0x915], result = [0x937, 0x94D, 0x915], rule_r = [0x1E25] @ ascii ''+k='' @ [0x1E63] @ ascii ''k'' \<rparr>,
     \<lparr> pattern_r = [0x903], following = [0x92A], result = [0x937, 0x94D, 0x92A], rule_r = [0x1E25] @ ascii ''+p='' @ [0x1E63] @ ascii ''p'' \<rparr>,
     \<lparr> pattern_r = [0x903], following = [0x924], result = [0x938, 0x94D, 0x924], rule_r = [0x1E25] @ ascii ''+t=st'' \<rparr>,
     \<lparr> pattern_r = [0x903], following = [0x91A], result = [0x936, 0x94D, 0x91A], rule_r = [0x1E25] @ ascii ''+c='' @ [0x15B] @ ascii ''c'' \<rparr>,
     \<lparr> pattern_r = [0x903], following = [0x905], result = [0x913], rule_r = ascii ''a'' @ [0x1E25] @ ascii ''+a=o'' \<rparr>,
     \<lparr> pattern_r = [0x903], following = ascii ''['' @ [0x905, 0x907, 0x909, 0x90B, 0x90F, 0x913] @ ascii '']'', result = [0x930, 0x94D], rule_r = [0x1E25] @ ascii ''+vowel=r'' \<rparr>,
     \<lparr> pattern_r = [0x903], following = ascii ''['' @ [0x905, 0x907, 0x909, 0x90B, 0x90F, 0x913] @ ascii '']'', result = [], rule_r = [0x1E25] @ ascii ''+vowel=drop'' \<rparr>],
    endingVariations = [
     \<lparr> suffix_e = [0x903], variations = [[], [0x939, 0x94D]], rule_e = ascii ''nom-sg-visarga'' \<rparr>,
     \<lparr> suffix_e = [0x92E, 0x94D], variations = [[], [0x928, 0x94D]], rule_e = ascii ''acc-sg-anusvara'' \<rparr>,
     \<lparr> suffix_e = [0x905], variations = [[0x94B], [0x902]], rule_e = ascii ''ending-a'' \<rparr>] \<rparr>"

text \<open>
  Where a rule's result occurs in the term, its first occurrence is replaced by the two
  parts it may have come from. \<open>label\<close> is \<open>reverse-\<close> or \<open>expand-\<close>.
\<close>

definition splitAt :: "jstring \<Rightarrow> jstring \<Rightarrow> SandhiRule \<Rightarrow> Variation list" where
  "splitAt label term r =
     (case indexOf term (result r) 0 of
        None \<Rightarrow> []
      | Some index \<Rightarrow>
          [\<lparr> v_text = take index term @ pattern_r r @ following r @ drop (index + length (result r)) term,
             v_rule = label @ rule_r r \<rparr>])"

definition trySplitSandhi :: "SanskritSandhiRules \<Rightarrow> jstring \<Rightarrow> Variation list" where
  "trySplitSandhi sr term =
     concat (map (splitAt (ascii ''reverse-'') term)
       (vowelSandhi sr @ consonantSandhi sr @ visargaSandhi sr))"

definition tryEndingVariations :: "SanskritSandhiRules \<Rightarrow> jstring \<Rightarrow> Variation list" where
  "tryEndingVariations sr term =
     concat (map (\<lambda>ending.
        if endsWith term (suffix_e ending)
        then concat (map (\<lambda>variant.
               let newTerm = take (length term - length (suffix_e ending)) term @ variant in
               if newTerm \<noteq> term then [\<lparr> v_text = newTerm, v_rule = rule_e ending \<rparr>] else [])
             (variations ending))
        else [])
       (endingVariations sr))"

definition tryVowelCombinations :: "SanskritSandhiRules \<Rightarrow> jstring \<Rightarrow> Variation list" where
  "tryVowelCombinations sr term = concat (map (splitAt (ascii ''expand-'') term) (vowelSandhi sr))"

text \<open>Keep the first variation of every text.\<close>

fun uniqueByText :: "jstring list \<Rightarrow> Variation list \<Rightarrow> Variation list" where
  "uniqueByText seen [] = []"
| "uniqueByText seen (v # vs) =
     (if v_text v \<in> set seen then uniqueByText seen vs else v # uniqueByText (v_text v # seen) vs)"

definition generateVariations :: "SanskritSandhiRules \<Rightarrow> jstring \<Rightarrow> Variation list" where
  "generateVariations sr term =
     uniqueByText []
       (\<lparr> v_text = term, v_rule = ascii ''original'' \<rparr> # trySplitSandhi sr term
          @ tryEndingVariations sr term @ tryVowelCombinations sr term)"


section \<open>The search engine\<close>

subsection \<open>Configuration\<close>

text \<open>
  The options object given to the constructor: an option that is absent is \<open>None\<close>.
  The configuration of an instance holds the value of every option.
\<close>

record Options =
  caseSensitive_opt :: "bool option"
  highlightClass_opt :: "jstring option"
  contextLength_opt :: "int option"
  enableSandhi_opt :: "bool option"
  maxResults_opt :: "int option"

definition no_options :: Options where
  "no_options = \<lparr> caseSensitive_opt = None, highlightClass_opt = None, contextLength_opt = None,
     enableSandhi_opt = None, maxResults_opt = None \<rparr>"

record Config =
  caseSensitive :: bool
  highlightClass :: jstring
  contextLength :: int
  enableSandhi :: bool
  maxResults :: int

record SanskritSearch =
  config :: Config
  sandhiRules :: "SanskritSandhiRules option"
  itiSandhiMap :: ItiSandhiMap

text \<open>
  The object that the constructor builds. \<open>a || b\<close> is \<open>a\<close> when \<open>a\<close> is truthy and \<open>b\<close>
  otherwise; an absent option, \<open>false\<close>, the number 0 and the empty string are falsy.
  \<open>sandhiLoaded\<close> tells whether \<open>window.SanskritSandhiRules\<close> is defined.
\<close>

definition constructed :: "bool \<Rightarrow> Options \<Rightarrow> SanskritSearch" where
  "constructed sandhiLoaded opts = \<lparr>
     config = \<lparr>
       caseSensitive = (case caseSensitive_opt opts of Some True \<Rightarrow> True | _ \<Rightarrow> False),
       highlightClass = (case highlightClass_opt opts of
                           Some c \<Rightarrow> if c \<noteq> [] then c else ascii ''search-highlight''
                         | None \<Rightarrow> ascii ''search-highlight''),
       contextLength = (case contextLength_opt opts of
                          Some n \<Rightarrow> if n \<noteq> 0 then n else 50 | None \<Rightarrow> 50),
       enableSandhi = (enableSandhi_opt opts \<noteq> Some False),
       maxResults = (case maxResults_opt opts of
                       Some n \<Rightarrow> if n \<noteq> 0 then n else 100 | None \<Rightarrow> 100) \<rparr>,
     sandhiRules = (if sandhiLoaded then Some new_SanskritSandhiRules else None),
     itiSandhiMap = createItiSandhiMap \<rparr>"

text \<open>
  The global \<open>window\<close> that the constructor reads in \<open>window.SanskritSandhiRules\<close>. Where
  no such global is declared, as under Node, reading it throws a \<open>ReferenceError\<close>. Where
  it is declared, its property \<open>SanskritSandhiRules\<close> is defined or not.
\<close>

datatype global_window = Undeclared | Window bool

fun new_SanskritSearch :: "global_window \<Rightarrow> Options \<Rightarrow> js_error + SanskritSearch" where
  "new_SanskritSearch Undeclared opts = Inl ReferenceError"
| "new_SanskritSearch (Window sandhiLoaded) opts = Inr (constructed sandhiLoaded opts)"

subsection \<open>Matches\<close>

datatype MatchType = exact | direct | sandhi | pratika_grahana

record Context =
  before :: jstring
  match :: jstring
  after :: jstring
  full :: jstring

record SearchMatch =
  position :: int
  length_m :: nat
  matchedText :: jstring
  context_m :: Context
  type_m :: MatchType
  variant :: "jstring option"
  sandhiRule :: "jstring option"
  originalTerm :: "jstring option"

text \<open>
  The result of a search. The field \<open>timestamp\<close> of the source, the clock's reading, is
  left out; \<open>searchTerm_r\<close>, the field \<open>searchTerm\<close>, is absent from the result of an empty search.
\<close>

record SearchResults =
  matches :: "SearchMatch list"
  count :: nat
  searchTerm_r :: "jstring option"

definition emptyResults :: SearchResults where
  "emptyResults = \<lparr> matches = [], count = 0, searchTerm_r = None \<rparr>"

text \<open>\<open>s.substring(a, b)\<close> and \<open>s.substr(a, n)\<close> on integers, with the clamping of ECMAScript.\<close>

definition substring_int :: "jstring \<Rightarrow> int \<Rightarrow> int \<Rightarrow> jstring" where
  "substring_int s a b =
     (let n = int (length s);
          a' = max 0 (min a n);
          b' = max 0 (min b n)
      in take (nat (max a' b' - min a' b')) (drop (nat (min a' b')) s))"

definition substr_int :: "jstring \<Rightarrow> int \<Rightarrow> int \<Rightarrow> jstring" where
  "substr_int s a n =
     (let len = int (length s);
          start = (if a < 0 then max (len + a) 0 else min a len)
      in take (nat (min (max n 0) (len - start))) (drop (nat start) s))"

definition getContext :: "Config \<Rightarrow> jstring \<Rightarrow> int \<Rightarrow> nat \<Rightarrow> Context" where
  "getContext cfg txt pos len =
     (let start = max 0 (pos - contextLength cfg);
          end' = min (int (length txt)) (pos + int len + contextLength cfg)
      in \<lparr> before = substring_int txt start pos,
           match = substr_int txt pos (int len),
           after = substring_int txt (pos + int len) end',
           full = substring_int txt start end' \<rparr>)"

definition isDuplicate :: "SearchMatch \<Rightarrow> SearchMatch list \<Rightarrow> bool" where
  "isDuplicate m existingMatches \<longleftrightarrow>
     (\<exists>existing \<in> set existingMatches. position existing = position m \<and> length_m existing = length_m m)"

subsection \<open>Phonetic variants\<close>

text \<open>
  Each step of \<open>generatePhoneticVariants\<close> tests whether the term includes a string and,
  if so, adds the term with a pattern replaced: everywhere, or, for a pattern that ends
  in \<open>$\<close>, at the end of the term only.
\<close>

datatype Replacement = Everywhere jstring | AtEnd jstring

fun replace :: "Replacement \<Rightarrow> jstring \<Rightarrow> jstring \<Rightarrow> jstring" where
  "replace (Everywhere p) r term = replaceAll p r term"
| "replace (AtEnd p) r term =
     (if endsWith term p then take (length term - length p) term @ r else term)"

definition phoneticSteps :: "(jstring \<times> Replacement \<times> jstring) list" where
  "phoneticSteps = [
     ([0x92E, 0x94D], Everywhere ([0x92E, 0x94D]), [0x902]),
     ([0x902], Everywhere ([0x902]), [0x92E, 0x94D]),
     ([0xCAE, 0xCCD], Everywhere ([0xCAE, 0xCCD]), [0xC82]),
     ([0xC82], Everywhere ([0xC82]), [0xCAE, 0xCCD]),
     ([0xBAE, 0xBCD], Everywhere ([0xBAE, 0xBCD]), [0xB82]),
     ([0xB82], Everywhere ([0xB82]), [0xBAE, 0xBCD]),
     ([0xC2E, 0xC4D], Everywhere ([0xC2E, 0xC4D]), [0xC02]),
     ([0xC02], Everywhere ([0xD82]), [0xC2E, 0xC4D]),
     ([0xD2E, 0xD4D], Everywhere ([0xD2E, 0xD4D]), [0xD02]),
     ([0xD02], Everywhere ([0xD02]), [0xD2E, 0xD4D]),
     ([0x9AE, 0x9CD], Everywhere ([0x9AE, 0x9CD]), [0x982]),
     ([0x982], Everywhere ([0x982]), [0x9AE, 0x9CD]),
     ([0xAAE, 0xACD], Everywhere ([0xAAE, 0xACD]), [0xA82]),
     ([0xA82], Everywhere ([0xA82]), [0xAAE, 0xACD]),
     ([0xB2E, 0xB4D], Everywhere ([0xB2E, 0xB4D]), [0xB02]),
     ([0xB02], Everywhere ([0xB02]), [0xB2E, 0xB4D]),
     ([0x903], Everywhere ([0x903]), [0x938, 0x94D]),
     ([0x938, 0x94D], AtEnd ([0x938, 0x94D]), [0x903])]"

text \<open>\<open>[...new Set(xs)]\<close>: the first occurrence of every element, in order.\<close>

fun unique :: "'a list \<Rightarrow> 'a list \<Rightarrow> 'a list" where
  "unique seen [] = []"
| "unique seen (x # xs) = (if x \<in> set seen then unique seen xs else x # unique (x # seen) xs)"

definition generatePhoneticVariants :: "jstring \<Rightarrow> jstring list" where
  "generatePhoneticVariants term =
     unique [] (term # concat (map (\<lambda>(inc, pat, rep).
        if includes_str term inc then [replace pat rep term] else []) phoneticSteps))"

definition hasEndingMarker :: "jstring \<Rightarrow> bool" where
  "hasEndingMarker term \<longleftrightarrow> term \<noteq> [] \<and> last term \<in>
     {0x902, 0x903, 0x901, 0x93E, 0x93F, 0x940, 0x941, 0x942, 0x947, 0x948, 0x94B, 0x94C, 0x943, 0x944, 0x962, 0x963, 0x94D, 0x1CF5, 0x1CF6, 0x92E, 0x94D, 0xC82, 0xC83, 0xCBE, 0xCBF, 0xCC0, 0xCC1, 0xCC2, 0xCC3, 0xCC4, 0xCC6, 0xCC7, 0xCC8, 0xCCA, 0xCCB, 0xCCC, 0xCCD, 0xCAE, 0xCCD, 0xB82, 0xB83, 0xBBE, 0xBBF, 0xBC0, 0xBC1, 0xBC2, 0xBC6, 0xBC7, 0xBC8, 0xBCA, 0xBCB, 0xBCC, 0xBCD, 0xBAE, 0xBCD, 0xC02, 0xC03, 0xC3E, 0xC3F, 0xC40, 0xC41, 0xC42, 0xC43, 0xC44, 0xC46, 0xC47, 0xC48, 0xC4A, 0xC4B, 0xC4C, 0xC4D, 0xC2E, 0xC4D, 0xD02, 0xD03, 0xD3E, 0xD3F, 0xD40, 0xD41, 0xD42, 0xD43, 0xD46, 0xD47, 0xD48, 0xD4A, 0xD4B, 0xD4C, 0xD4D, 0xD2E, 0xD4D, 0x982, 0x983, 0x9BE, 0x9BF, 0x9C0, 0x9C1, 0x9C2, 0x9C3, 0x9C7, 0x9C8, 0x9CB, 0x9CC, 0x9CD, 0x9AE, 0x9CD, 0xA82, 0xA83, 0xABE, 0xABF, 0xAC0, 0xAC1, 0xAC2, 0xAC3, 0xAC7, 0xAC8, 0xACB, 0xACC, 0xACD, 0xAAE, 0xACD, 0xB02, 0xB03, 0xB3E, 0xB3F, 0xB40, 0xB41, 0xB42, 0xB43, 0xB47, 0xB48, 0xB4B, 0xB4C, 0xB4D, 0xB2E, 0xB4D}"

subsection \<open>Exact word search\<close>

text \<open>The characters of the word-boundary class.\<close>

definition boundaryChar :: "nat \<Rightarrow> bool" where
  "boundaryChar c \<longleftrightarrow> WhiteSpace c \<or> c \<in> {0xA, 0xD, 0x964, 0x965, 0xCE7, 0xCE8, 0x964, 0x964, 0x2C, 0x3B, 0x27, 0x22, 0x28, 0x29, 0x5B, 0x5D, 0x7B, 0x7D, 0x2F, 0x3C, 0x3E, 0x7C}"

text \<open>
  One attempt of the regular expression \<open>B(v)B\<close>, where \<open>B\<close> is
  \<open>(?:^|[boundary class]|$)\<close> and \<open>v\<close> the escaped variant, at index \<open>i\<close>. The
  alternatives of the leading \<open>B\<close> are tried in their order, and for each one the
  alternatives of the trailing \<open>B\<close>. The result is the number of code units taken by the
  leading and by the trailing \<open>B\<close>.
\<close>

definition trailingBoundary :: "jstring \<Rightarrow> nat \<Rightarrow> nat option" where
  "trailingBoundary txt k =
     (if k = 0 then Some 0
      else if k < length txt \<and> boundaryChar (txt ! k) then Some 1
      else if k = length txt then Some 0
      else None)"

definition variantAt :: "jstring \<Rightarrow> jstring \<Rightarrow> nat \<Rightarrow> nat option" where
  "variantAt txt v j =
     (if j \<le> length txt \<and> take (length v) (drop j txt) = v
      then trailingBoundary txt (j + length v) else None)"

definition matchAt :: "jstring \<Rightarrow> jstring \<Rightarrow> nat \<Rightarrow> (nat \<times> nat) option" where
  "matchAt txt v i =
     (case (if i = 0 then variantAt txt v i else None) of
        Some t \<Rightarrow> Some (0, t)
      | None \<Rightarrow>
         (case (if i < length txt \<and> boundaryChar (txt ! i) then variantAt txt v (i + 1) else None) of
            Some t \<Rightarrow> Some (1, t)
          | None \<Rightarrow>
             (case (if i = length txt then variantAt txt v i else None) of
                Some t \<Rightarrow> Some (0, t)
              | None \<Rightarrow> None)))"

text \<open>\<open>pattern.exec(text)\<close> with \<open>lastIndex = i\<close>: the first index from \<open>i\<close> on where an
  attempt succeeds. \<open>fuel\<close> counts the indices left, \<open>length text + 1 - i\<close>.\<close>

fun execFrom :: "jstring \<Rightarrow> jstring \<Rightarrow> nat \<Rightarrow> nat \<Rightarrow> (nat \<times> nat \<times> nat) option" where
  "execFrom txt v 0 i = None"
| "execFrom txt v (Suc fuel) i =
     (case matchAt txt v i of
        Some (l, t) \<Rightarrow> Some (i, l, t)
      | None \<Rightarrow> execFrom txt v fuel (Suc i))"

definition exec :: "jstring \<Rightarrow> jstring \<Rightarrow> nat \<Rightarrow> (nat \<times> nat \<times> nat) option" where
  "exec txt v lastIndex = execFrom txt v (length txt + 1 - lastIndex) lastIndex"

definition endsWithBoundaryChar :: "jstring \<Rightarrow> bool" where
  "endsWithBoundaryChar s \<longleftrightarrow> s \<noteq> [] \<and> boundaryChar (last s)"

definition exactMatch :: "Config \<Rightarrow> jstring \<Rightarrow> jstring \<Rightarrow> jstring \<Rightarrow> int \<Rightarrow> nat \<Rightarrow> jstring \<Rightarrow> SearchMatch" where
  "exactMatch cfg searchTerm txt v pos len matched =
     \<lparr> position = pos, length_m = len, matchedText = matched,
       context_m = getContext cfg txt pos len, type_m = exact,
       variant = (if v \<noteq> searchTerm then Some v else None),
       sandhiRule = None, originalTerm = None \<rparr>"

definition pushUnlessSamePosition :: "SearchMatch \<Rightarrow> SearchMatch list \<Rightarrow> SearchMatch list" where
  "pushUnlessSamePosition m ms = (if \<exists>m' \<in> set ms. position m' = position m then ms else ms @ [m])"

text \<open>
  The loop \<open>while ((match = pattern.exec(text)) !== null)\<close> of a global regular expression.
  A loop that does not end has no result: \<open>None\<close>.
\<close>

partial_function (option) wordBoundaryLoop ::
  "Config \<Rightarrow> jstring \<Rightarrow> jstring \<Rightarrow> jstring \<Rightarrow> nat \<Rightarrow> SearchMatch list \<Rightarrow> SearchMatch list option" where
  "wordBoundaryLoop cfg searchTerm txt v lastIndex ms =
     (case exec txt v lastIndex of
        None \<Rightarrow> Some ms
      | Some (index, l, t) \<Rightarrow>
          (let match0 = take (l + length v + t) (drop index txt);
               matchStart = int index + (int (length match0) - int (length v)
                              - (if endsWithBoundaryChar match0 then 1 else 0))
           in wordBoundaryLoop cfg searchTerm txt v (index + length match0)
                (pushUnlessSamePosition (exactMatch cfg searchTerm txt v matchStart (length v) v) ms)))"

text \<open>The fallback loop \<open>while ((index = text.indexOf(variant, index)) !== -1)\<close>.\<close>

partial_function (option) substringLoop ::
  "Config \<Rightarrow> jstring \<Rightarrow> jstring \<Rightarrow> jstring \<Rightarrow> nat \<Rightarrow> SearchMatch list \<Rightarrow> SearchMatch list option" where
  "substringLoop cfg searchTerm txt v index ms =
     (case indexOf txt v index of
        None \<Rightarrow> Some ms
      | Some index' \<Rightarrow>
          substringLoop cfg searchTerm txt v (index' + length v)
            (pushUnlessSamePosition (exactMatch cfg searchTerm txt v (int index') (length v) v) ms))"

definition searchVariant ::
  "Config \<Rightarrow> jstring \<Rightarrow> jstring \<Rightarrow> SearchMatch list \<Rightarrow> jstring \<Rightarrow> SearchMatch list option" where
  "searchVariant cfg searchTerm txt ms v =
     (case wordBoundaryLoop cfg searchTerm txt v 0 ms of
        None \<Rightarrow> None
      | Some ms' \<Rightarrow> if ms' = [] then substringLoop cfg searchTerm txt v 0 ms' else Some ms')"

text \<open>\<open>variants.forEach\<close>: the matches found so far are threaded through the variants.\<close>

fun forEachVariant ::
  "Config \<Rightarrow> jstring \<Rightarrow> jstring \<Rightarrow> SearchMatch list \<Rightarrow> jstring list \<Rightarrow> SearchMatch list option" where
  "forEachVariant cfg searchTerm txt ms [] = Some ms"
| "forEachVariant cfg searchTerm txt ms (v # vs) =
     (case searchVariant cfg searchTerm txt ms v of
        None \<Rightarrow> None
      | Some ms' \<Rightarrow> forEachVariant cfg searchTerm txt ms' vs)"

text \<open>\<open>matches.sort((a, b) => a.position - b.position)\<close>: a stable sort.\<close>

definition sortByPosition :: "SearchMatch list \<Rightarrow> SearchMatch list" where
  "sortByPosition ms = sort_key position ms"

definition exactWordSearch :: "host \<Rightarrow> SanskritSearch \<Rightarrow> jstring \<Rightarrow> jstring \<Rightarrow> SearchResults option" where
  "exactWordSearch h this searchTerm0 text0 =
     (if searchTerm0 = [] \<or> text0 = [] then Some emptyResults
      else
        let searchTerm = normalizeNFC h searchTerm0;
            txt = normalizeNFC h text0
        in case forEachVariant (config this) searchTerm txt [] (generatePhoneticVariants searchTerm) of
             None \<Rightarrow> None
           | Some ms \<Rightarrow>
               Some \<lparr> matches = sortByPosition ms, count = length ms, searchTerm_r = Some searchTerm \<rparr>)"

subsection \<open>Direct and sandhi-aware search\<close>

partial_function (option) directSearchLoop ::
  "Config \<Rightarrow> jstring \<Rightarrow> jstring \<Rightarrow> jstring \<Rightarrow> jstring \<Rightarrow> bool \<Rightarrow> nat \<Rightarrow> SearchMatch list
     \<Rightarrow> SearchMatch list option" where
  "directSearchLoop cfg searchTerm txt searchStr textStr searchEndsWithMark pos ms =
     (case indexOf textStr searchStr pos of
        None \<Rightarrow> Some ms
      | Some pos' \<Rightarrow>
          (let matchLength =
                 (if \<not> searchEndsWithMark
                  then length searchTerm
                         + length (takeWhile sanskritEndings (drop (pos' + length searchTerm) txt))
                  else length searchTerm)
           in directSearchLoop cfg searchTerm txt searchStr textStr searchEndsWithMark
                (pos' + length searchTerm)
                (ms @ [\<lparr> position = int pos', length_m = matchLength,
                          matchedText = substr_int txt (int pos') (int matchLength),
                          context_m = getContext cfg txt (int pos') matchLength,
                          type_m = direct, variant = None, sandhiRule = None,
                          originalTerm = None \<rparr>])))"

definition directSearch :: "host \<Rightarrow> SanskritSearch \<Rightarrow> jstring \<Rightarrow> jstring \<Rightarrow> SearchMatch list option" where
  "directSearch h this searchTerm txt =
     (let searchStr = (if caseSensitive (config this) then searchTerm else toLowerCase h searchTerm);
          textStr = (if caseSensitive (config this) then txt else toLowerCase h txt);
          searchEndsWithMark = (searchTerm \<noteq> [] \<and> sanskritEndings (last searchTerm))
      in directSearchLoop (config this) searchTerm txt searchStr textStr searchEndsWithMark 0 [])"

fun sandhiVariantSearch ::
  "host \<Rightarrow> SanskritSearch \<Rightarrow> jstring \<Rightarrow> jstring \<Rightarrow> Variation list \<Rightarrow> SearchMatch list option" where
  "sandhiVariantSearch h this searchTerm txt [] = Some []"
| "sandhiVariantSearch h this searchTerm txt (v # vs) =
     (case directSearch h this (v_text v) txt of
        None \<Rightarrow> None
      | Some variantMatches \<Rightarrow>
          (case sandhiVariantSearch h this searchTerm txt vs of
             None \<Rightarrow> None
           | Some rest \<Rightarrow>
               Some (map (\<lambda>m. m\<lparr> type_m := sandhi, sandhiRule := Some (v_rule v),
                                  originalTerm := Some searchTerm \<rparr>) variantMatches @ rest)))"

definition sandhiAwareSearch :: "host \<Rightarrow> SanskritSearch \<Rightarrow> jstring \<Rightarrow> jstring \<Rightarrow> SearchMatch list option" where
  "sandhiAwareSearch h this searchTerm txt =
     (case sandhiRules this of
        None \<Rightarrow> Some []
      | Some sr \<Rightarrow> sandhiVariantSearch h this searchTerm txt (generateVariations sr searchTerm))"

text \<open>Merging: a match is added unless one with its position and length is there.\<close>

fun mergeMatches :: "SearchMatch list \<Rightarrow> SearchMatch list \<Rightarrow> SearchMatch list" where
  "mergeMatches ms [] = ms"
| "mergeMatches ms (m # rest) = mergeMatches (if isDuplicate m ms then ms else ms @ [m]) rest"

text \<open>\<open>matches.slice(0, maxResults)\<close>, done when \<open>maxResults\<close> is not 0.\<close>

definition limitResults :: "Config \<Rightarrow> SearchMatch list \<Rightarrow> SearchMatch list" where
  "limitResults cfg ms =
     (if maxResults cfg \<noteq> 0
      then (if maxResults cfg < 0
            then take (nat (max (int (length ms) + maxResults cfg) 0)) ms
            else take (nat (min (maxResults cfg) (int (length ms)))) ms)
      else ms)"

text \<open>
  \<open>search\<close> on strings. The result \<open>None\<close> means that the call does not return.
\<close>

definition search :: "host \<Rightarrow> SanskritSearch \<Rightarrow> jstring \<Rightarrow> jstring \<Rightarrow> SearchResults option" where
  "search h this searchTerm0 text0 =
     (if searchTerm0 = [] \<or> text0 = [] then Some emptyResults
      else
        let searchTerm = normalizeNFC h searchTerm0;
            txt = normalizeNFC h text0
        in if hasEndingMarker searchTerm then exactWordSearch h this searchTerm txt
           else
             (case directSearch h this searchTerm txt of
                None \<Rightarrow> None
              | Some directMatches \<Rightarrow>
                  (case (if enableSandhi (config this) \<and> sandhiRules this \<noteq> None
                         then sandhiAwareSearch h this searchTerm txt else Some []) of
                     None \<Rightarrow> None
                   | Some sandhiMatches \<Rightarrow>
                       (let ms = limitResults (config this)
                                   (sortByPosition (mergeMatches directMatches sandhiMatches))
                        in Some \<lparr> matches = ms, count = length ms, searchTerm_r = Some searchTerm \<rparr>))))"

text \<open>
  \<open>search\<close> on any two values: a falsy argument gives the empty result, and a truthy
  argument that is not a string has no method \<open>normalize\<close>, so the call throws.
\<close>

definition search_value ::
  "host \<Rightarrow> SanskritSearch \<Rightarrow> js_value \<Rightarrow> js_value \<Rightarrow> (js_error + SearchResults) option" where
  "search_value h this a b =
     (if \<not> truthy a \<or> \<not> truthy b then Some (Inr emptyResults)
      else case (a, b) of
             (JString searchTerm, JString txt) \<Rightarrow> map_option Inr (search h this searchTerm txt)
           | _ \<Rightarrow> Some (Inl TypeError))"


subsection \<open>Documents and the index\<close>

text \<open>
  A document \<open>{id, text, metadata}\<close>. The metadata is an object that the library only
  passes on; it is modelled by its entries, and \<open>None\<close> is a document without metadata.
\<close>

type_synonym metadata = "(jstring \<times> jstring) list"

record Document =
  doc_id :: nat
  doc_text :: jstring
  doc_metadata :: "metadata option"

text \<open>An entry of the result of \<open>searchMultiple\<close>: \<open>{id, metadata, ...results}\<close>.\<close>

record DocumentResults =
  res_id :: nat
  res_metadata :: metadata
  results :: SearchResults

definition documentResults :: "Document \<Rightarrow> SearchResults \<Rightarrow> DocumentResults" where
  "documentResults doc r =
     \<lparr> res_id = doc_id doc,
       res_metadata = (case doc_metadata doc of Some m \<Rightarrow> m | None \<Rightarrow> []),
       results = r \<rparr>"

text \<open>
  \<open>documents.map(doc => ...)\<close>. An element of the array that is \<open>undefined\<close> is \<open>None\<close>:
  reading its text throws. A search that does not return leaves the whole call without
  a result.
\<close>

fun searchDocuments ::
  "host \<Rightarrow> SanskritSearch \<Rightarrow> jstring \<Rightarrow> Document option list \<Rightarrow> (js_error + DocumentResults list) option" where
  "searchDocuments h this searchTerm [] = Some (Inr [])"
| "searchDocuments h this searchTerm (None # docs) = Some (Inl TypeError)"
| "searchDocuments h this searchTerm (Some doc # docs) =
     (case search h this searchTerm (doc_text doc) of
        None \<Rightarrow> None
      | Some r \<Rightarrow>
          (case searchDocuments h this searchTerm docs of
             None \<Rightarrow> None
           | Some (Inl e) \<Rightarrow> Some (Inl e)
           | Some (Inr rs) \<Rightarrow> Some (Inr (documentResults doc r # rs))))"

definition searchMultiple ::
  "host \<Rightarrow> SanskritSearch \<Rightarrow> jstring \<Rightarrow> Document option list \<Rightarrow> (js_error + DocumentResults list) option" where
  "searchMultiple h this searchTerm documents =
     (case searchDocuments h this searchTerm documents of
        None \<Rightarrow> None
      | Some (Inl e) \<Rightarrow> Some (Inl e)
      | Some (Inr rs) \<Rightarrow> Some (Inr (filter (\<lambda>r. count (results r) > 0) rs)))"

text \<open>
  \<open>extractWords\<close>: the text is split at every run of separators, the empty pieces are
  dropped, and the first occurrence of every word is kept.
\<close>

definition separator :: "nat \<Rightarrow> bool" where
  "separator c \<longleftrightarrow> WhiteSpace c \<or> c \<in> {0x2E, 0x2C, 0x3B, 0x21, 0x3F, 0x28, 0x29, 0x5B, 0x5D, 0x7B, 0x7D, 0x964, 0x965}"

fun splitWords :: "jstring \<Rightarrow> jstring \<Rightarrow> jstring list" where
  "splitWords cur [] = (if cur = [] then [] else [cur])"
| "splitWords cur (c # cs) =
     (if separator c then (if cur = [] then [] else [cur]) @ splitWords [] cs
      else splitWords (cur @ [c]) cs)"

definition extractWords :: "jstring \<Rightarrow> jstring list" where
  "extractWords txt = unique [] (splitWords [] txt)"

text \<open>
  The index: the documents without their text, and a \<open>Map\<close> from every word to the
  \<open>Set\<close> of the indices of the documents that contain it. Both keep the order of
  insertion.
\<close>

record Index =
  documents :: "(nat \<times> metadata option) list"
  terms :: "(jstring \<times> nat list) list"

fun addToTerms :: "(jstring \<times> nat list) list \<Rightarrow> jstring \<Rightarrow> nat \<Rightarrow> (jstring \<times> nat list) list" where
  "addToTerms [] word docIndex = [(word, [docIndex])]"
| "addToTerms ((w, docs) # rest) word docIndex =
     (if w = word then (w, if docIndex \<in> set docs then docs else docs @ [docIndex]) # rest
      else (w, docs) # addToTerms rest word docIndex)"

definition indexDocument :: "Index \<Rightarrow> Document \<times> nat \<Rightarrow> Index" where
  "indexDocument index = (\<lambda>(doc, docIndex).
     \<lparr> documents = documents index @ [(doc_id doc, doc_metadata doc)],
       terms = foldl (\<lambda>ts word. addToTerms ts word docIndex) (terms index) (extractWords (doc_text doc)) \<rparr>)"

definition createIndex :: "Document list \<Rightarrow> Index" where
  "createIndex docs =
     foldl indexDocument \<lparr> documents = [], terms = [] \<rparr> (zip docs [0 ..< length docs])"

text \<open>
  \<open>searchWithIndex\<close>: the documents whose index entry holds a word of the search term
  are collected, in the order in which they are met, and only they are searched.
  \<open>documents[idx]\<close> outside the array is \<open>undefined\<close>.
\<close>

definition searchWithIndex ::
  "host \<Rightarrow> SanskritSearch \<Rightarrow> jstring \<Rightarrow> Index \<Rightarrow> Document list \<Rightarrow> (js_error + DocumentResults list) option" where
  "searchWithIndex h this searchTerm index docs =
     (let words = extractWords searchTerm;
          relevantDocIndices = unique [] (concat (map (\<lambda>word. lookup (terms index) word) words));
          relevantDocs = map (\<lambda>idx. if idx < length docs then Some (docs ! idx) else None) relevantDocIndices
      in searchMultiple h this searchTerm relevantDocs)"


section \<open>Notions used in the properties\<close>

text \<open>
  An entry of the forward table goes round when its quoted ending \<open>s\<close> ends in a key
  \<open>p\<close> of the reverse table one of whose base endings, put after the rest of \<open>s\<close>, gives
  the base ending \<open>e\<close> back.
\<close>

definition goesRound :: "ItiSandhiMap \<Rightarrow> jstring \<times> jstring \<Rightarrow> bool" where
  "goesRound m = (\<lambda>(e, s).
     \<exists>(p, ends) \<in> set (reverse m). p \<noteq> [] \<and> endsWith s p
        \<and> (\<exists>e' \<in> set ends. take (length s - length p) s @ e' = e))"

text \<open>What \<open>directSearch\<close> records for a hit at the index \<open>p\<close>.\<close>

definition directHit ::
  "jstring \<Rightarrow> jstring \<Rightarrow> jstring \<Rightarrow> jstring \<Rightarrow> bool \<Rightarrow> SearchMatch \<Rightarrow> bool" where
  "directHit searchTerm txt searchStr textStr searchEndsWithMark m \<longleftrightarrow>
     type_m m = direct \<and>
     (\<exists>p. position m = int p \<and> p \<le> length textStr
        \<and> take (length searchStr) (drop p textStr) = searchStr
        \<and> length_m m = (if searchEndsWithMark then length searchTerm
             else length searchTerm + length (takeWhile sanskritEndings (drop (p + length searchTerm) txt)))
        \<and> matchedText m = take (length_m m) (drop p txt))"

text \<open>
  An occurrence of length \<open>n\<close> at the index \<open>p\<close> is delimited by word boundaries when it
  starts at the start of the text or after a character of the boundary class, and ends at
  the end of the text or before a character of the boundary class.
\<close>

definition atWordBoundaries :: "jstring \<Rightarrow> nat \<Rightarrow> nat \<Rightarrow> bool" where
  "atWordBoundaries txt p n \<longleftrightarrow>
     (p = 0 \<or> (p \<le> length txt \<and> boundaryChar (txt ! (p - 1))))
   \<and> (p + n = length txt \<or> (p + n < length txt \<and> boundaryChar (txt ! (p + n))))"

definition occursAtWordBoundaries :: "jstring \<Rightarrow> jstring \<Rightarrow> bool" where
  "occursAtWordBoundaries txt v \<longleftrightarrow>
     (\<exists>p \<in> {0 .. length txt}. take (length v) (drop p txt) = v \<and> atWordBoundaries txt p (length v))"

text \<open>What every match of \<open>exactWordSearch\<close> satisfies: it is of type \<open>exact\<close>, its text
  is one of the variants and stands in the text at its position, and it is delimited by
  word boundaries unless the regular expression of its variant matches nowhere in the
  text.\<close>

definition variantOccurrence :: "jstring list \<Rightarrow> jstring \<Rightarrow> SearchMatch \<Rightarrow> bool" where
  "variantOccurrence vs tx m \<longleftrightarrow>
     type_m m = exact \<and> matchedText m \<in> set vs \<and> length_m m = length (matchedText m)
     \<and> 0 \<le> position m \<and> take (length_m m) (drop (nat (position m)) tx) = matchedText m
     \<and> (atWordBoundaries tx (nat (position m)) (length_m m) \<or> exec tx (matchedText m) 0 = None)"

text \<open>The documents that \<open>searchWithIndex\<close> searches.\<close>

definition relevantIndices :: "jstring \<Rightarrow> Index \<Rightarrow> nat list" where
  "relevantIndices searchTerm index =
     unique [] (concat (map (\<lambda>word. lookup (terms index) word) (extractWords searchTerm)))"

section \<open>Properties\<close>

subsection \<open>Configuration\<close>

text \<open>
  Claim C10. Where the global \<open>window\<close> is declared, the constructor returns an instance,
  and an option \<open>contextLength\<close> or \<open>maxResults\<close> that is set to 0 is replaced by the
  default: the instance has \<open>contextLength = 50\<close>, respectively \<open>maxResults = 100\<close>,
  whatever the other options are. Where no global \<open>window\<close> is declared, as under Node,
  the constructor returns no instance: it throws a \<open>ReferenceError\<close>, for these options
  as for all others.
\<close>

theorem constructor_throws_without_window:
  "new_SanskritSearch Undeclared (opts\<lparr>contextLength_opt := Some 0\<rparr>) = Inl ReferenceError
   \<and> new_SanskritSearch Undeclared (opts\<lparr>maxResults_opt := Some 0\<rparr>) = Inl ReferenceError
   \<and> (\<exists>this. new_SanskritSearch (Window w) (opts\<lparr>contextLength_opt := Some 0\<rparr>) = Inr this
          \<and> contextLength (config this) = 50)
   \<and> (\<exists>this. new_SanskritSearch (Window w) (opts\<lparr>maxResults_opt := Some 0\<rparr>) = Inr this
          \<and> maxResults (config this) = 100)"
  by (simp add: constructed_def)

theorem constructor_throws_without_window_witness:
  "new_SanskritSearch Undeclared (no_options\<lparr>maxResults_opt := Some 0\<rparr>) = Inl ReferenceError
   \<and> (\<exists>this. new_SanskritSearch (Window True)
               (no_options\<lparr>maxResults_opt := Some 7, contextLength_opt := Some 0\<rparr>) = Inr this
          \<and> contextLength (config this) = 50)
   \<and> (\<exists>this. new_SanskritSearch (Window True)
               (no_options\<lparr>contextLength_opt := Some 7, maxResults_opt := Some 0\<rparr>) = Inr this
          \<and> maxResults (config this) = 100)"
  using constructor_throws_without_window [of no_options True, THEN conjunct2, THEN conjunct1]
    constructor_throws_without_window
      [of "no_options\<lparr>maxResults_opt := Some 7\<rparr>" True, THEN conjunct2, THEN conjunct2, THEN conjunct1]
    constructor_throws_without_window
      [of "no_options\<lparr>contextLength_opt := Some 7\<rparr>" True, THEN conjunct2, THEN conjunct2, THEN conjunct2]
  by (intro conjI)


subsection \<open>Strings\<close>

lemma endsWith_iff: "endsWith s p \<longleftrightarrow> (\<exists>b. s = b @ p)"
proof
  assume "endsWith s p"
  then have "length p \<le> length s" and "drop (length s - length p) s = p"
    by (simp_all add: endsWith_def)
  then have "s = take (length s - length p) s @ p"
    by (metis append_take_drop_id)
  then show "\<exists>b. s = b @ p" ..
next
  assume "\<exists>b. s = b @ p"
  then show "endsWith s p"
    by (auto simp: endsWith_def)
qed

lemma endsWith_append [simp]: "endsWith (b @ p) p"
  by (simp add: endsWith_def)

lemma endsWith_append_shorter:
  "length q \<le> length p \<Longrightarrow> endsWith (b @ p) q = endsWith p q"
  by (simp add: endsWith_def)

lemma slice_drop_suffix:
  "p \<noteq> [] \<Longrightarrow> slice (b @ p) 0 (- int (length p)) = b"
  by (simp add: slice_def Let_def)

lemma slice_drop_last:
  "0 < n \<Longrightarrow> n \<le> length s \<Longrightarrow> slice s 0 (- int n) = take (length s - n) s"
  by (simp add: slice_def Let_def nat_diff_distrib')

lemma trim_fixed:
  "s \<noteq> [] \<Longrightarrow> \<not> WhiteSpace (hd s) \<Longrightarrow> \<not> WhiteSpace (last s) \<Longrightarrow> trim s = s"
proof -
  assume s: "s \<noteq> []" and h: "\<not> WhiteSpace (hd s)" and l: "\<not> WhiteSpace (last s)"
  from s h have "dropWhile WhiteSpace s = s"
    by (cases s) simp_all
  moreover from s l have "dropWhile WhiteSpace (rev s) = rev s"
    by (cases "rev s") (simp_all add: last_rev [symmetric] hd_rev)
  ultimately show ?thesis
    by (simp add: trim_def)
qed


subsection \<open>The pratika identifier\<close>

lemmas pratika_eval =
  identifyPratika_def plain_host_def trim_def WhiteSpace_def endsWithMarkTi_def
  endsWithSpaceIti_def unmarkedBeforeIti_def endsWith_def iti_def removeSpaceIti_def
  endsWithVowelMark_def endsWithVisargaOrAnusvara_def ascii_def Let_def notPratika_def
  applySuffixRules_def slice_def slice_from_def test_consonant_def

lemma fused_stem_length:
  assumes "identifyPratika h txt = Some r" and "isPratika r"
    and "\<not> endsWithSpaceIti (normalizeNFC h (trim txt))"
  shows "\<exists>s. stem r = Some s \<and> 2 \<le> length s"
  using assms
  by (auto simp: identifyPratika_def Let_def notPratika_def split: if_splits prod.splits)

text \<open>
  Claim C1. The stem of a pratika has at least two code units on every path that goes
  through the suffix rules, and the word \<open>bha uu-sign ta i-sign\<close> is no pratika. The
  space-separated branch returns before the length is checked: for \<open>ka\<close>, a space and
  \<open>iti\<close> the result is a pratika whose stem is the single letter \<open>ka\<close>.
\<close>

theorem space_branch_skips_stem_length_check:
  "(\<exists>r. identifyPratika plain_host ([0x915] @ ascii '' '' @ [0x907, 0x924, 0x93F]) = Some r
        \<and> isPratika r \<and> stem r = Some [0x915] \<and> length [0x915 :: nat] = 1)
   \<and> (\<exists>r. identifyPratika plain_host [0x92D, 0x942, 0x924, 0x93F] = Some r \<and> \<not> isPratika r)
   \<and> (\<forall>h txt r. identifyPratika h txt = Some r \<longrightarrow> isPratika r
          \<longrightarrow> \<not> endsWithSpaceIti (normalizeNFC h (trim txt))
          \<longrightarrow> (\<exists>s. stem r = Some s \<and> 2 \<le> length s))"
proof -
  have "\<exists>r. identifyPratika plain_host ([0x915] @ ascii '' '' @ [0x907, 0x924, 0x93F]) = Some r
        \<and> isPratika r \<and> stem r = Some [0x915] \<and> length [0x915 :: nat] = 1"
    by (simp add: pratika_eval)
  moreover
  have "\<exists>r. identifyPratika plain_host [0x92D, 0x942, 0x924, 0x93F] = Some r \<and> \<not> isPratika r"
    by (simp add: pratika_eval)
  moreover
  have "\<forall>h txt r. identifyPratika h txt = Some r \<longrightarrow> isPratika r
          \<longrightarrow> \<not> endsWithSpaceIti (normalizeNFC h (trim txt))
          \<longrightarrow> (\<exists>s. stem r = Some s \<and> 2 \<le> length s)"
    using fused_stem_length by blast
  ultimately show ?thesis
    by (intro conjI)
qed

text \<open>The witness: \<open>ra aa-sign ma e-sign ta i-sign\<close> goes through the rule \<open>eti\<close>.\<close>

theorem space_branch_skips_stem_length_check_witness:
  "\<exists>r s. identifyPratika plain_host [0x930, 0x93E, 0x92E, 0x947, 0x924, 0x93F] = Some r
     \<and> isPratika r \<and> pattern r = Some (ascii ''eti'') \<and> confidence r = 65
     \<and> stem r = Some s \<and> 2 \<le> length s"
proof -
  let ?t = "[0x930, 0x93E, 0x92E, 0x947, 0x924, 0x93F] :: jstring"
  obtain r where r: "identifyPratika plain_host ?t = Some r" "isPratika r"
      "pattern r = Some (ascii ''eti'')" "confidence r = 65"
    by (simp add: pratika_eval)
  have "\<not> endsWithSpaceIti (normalizeNFC plain_host (trim ?t))"
    by (simp add: pratika_eval)
  with r space_branch_skips_stem_length_check obtain s where "stem r = Some s" "2 \<le> length s"
    by blast
  with r show ?thesis by blast
qed


text \<open>
  Claim C2. A text that ends in \<open>e-sign bha virama ya ra i-sign ta i-sign\<close>, the suffix of
  the dative and ablative plural, also ends in \<open>ra i-sign ta i-sign\<close>, and the cascade
  tests the shorter suffix first: the result carries the rule \<open>riti-visarga\<close> and the
  confidence 88, never \<open>ebhyariti\<close> or \<open>yebhyariti\<close> and 95. The restored stem is in
  normal form C.
\<close>

theorem plural_suffix_taken_by_riti_rule:
  assumes "txt \<noteq> []"
    and "normalizeNFC h (trim txt) = b @ [0x947, 0x92D, 0x94D, 0x92F, 0x930, 0x93F, 0x924, 0x93F]"
    and "normalizeNFC h (b @ [0x947, 0x92D, 0x94D, 0x92F, 0x903]) = b @ [0x947, 0x92D, 0x94D, 0x92F, 0x903]"
  shows "\<exists>r. identifyPratika h txt = Some r \<and> isPratika r
           \<and> pattern r = Some (ascii ''riti-visarga'') \<and> confidence r = 88
           \<and> pattern r \<noteq> Some (ascii ''ebhyariti'') \<and> pattern r \<noteq> Some (ascii ''yebhyariti'')
           \<and> stem r = Some (b @ [0x947, 0x92D, 0x94D, 0x92F, 0x903])"
proof -
  let ?suf = "[0x947, 0x92D, 0x94D, 0x92F, 0x930, 0x93F, 0x924, 0x93F] :: jstring"
  let ?t = "b @ ?suf"
  have gate: "endsWithMarkTi ?t"
    by (simp add: endsWithMarkTi_def)
  have nospace: "\<not> endsWithSpaceIti ?t"
    by (simp add: endsWithSpaceIti_def endsWith_append_shorter iti_def) (simp add: endsWith_def)
  have before: "slice ?t (- 5) (- 4) = [0x92F]"
    by (simp add: slice_def Let_def nat_add_distrib)
  have cut: "slice ?t 0 (- 4) = b @ [0x947, 0x92D, 0x94D, 0x92F]"
    by (simp add: slice_def Let_def nat_add_distrib)
  have rules: "applySuffixRules ?t =
      (b @ [0x947, 0x92D, 0x94D, 0x92F, 0x903], ascii ''riti-visarga'',
       ascii ''Visarga ('' @ [0x903] @ ascii '') + '' @ [0x907, 0x924, 0x93F] @ ascii '' '' @ [0x2192]
         @ ascii '' '' @ [0x930, 0x93F, 0x924, 0x93F] @ ascii '' sandhi'', 88)"
    unfolding applySuffixRules_def
    by (simp add: endsWith_append_shorter before cut) (simp add: endsWith_def)
  show ?thesis
    using assms gate nospace rules
    by (simp add: identifyPratika_def Let_def ascii_def)
qed

theorem plural_suffix_taken_by_riti_rule_witness:
  "\<exists>r. identifyPratika plain_host
          [0x926, 0x947, 0x935, 0x947, 0x92D, 0x94D, 0x92F, 0x930, 0x93F, 0x924, 0x93F] = Some r
     \<and> isPratika r \<and> pattern r = Some (ascii ''riti-visarga'') \<and> confidence r = 88
     \<and> pattern r \<noteq> Some (ascii ''ebhyariti'') \<and> pattern r \<noteq> Some (ascii ''yebhyariti'')
     \<and> stem r = Some [0x926, 0x947, 0x935, 0x947, 0x92D, 0x94D, 0x92F, 0x903]"
  using plural_suffix_taken_by_riti_rule [of
      "[0x926, 0x947, 0x935, 0x947, 0x92D, 0x94D, 0x92F, 0x930, 0x93F, 0x924, 0x93F]"
      plain_host "[0x926, 0x947, 0x935]"]
  by (simp add: plain_host_def trim_def WhiteSpace_def)

text \<open>
  Claim C9. When the trimmed and normalised text is a word, white space and \<open>iti\<close>, and
  the word ends neither in a vowel sign nor in visarga, anusvara or candrabindu, the
  result is a pratika with the rule \<open>space-iti-inherent-a\<close>, the confidence 75 and the
  word as its stem.
\<close>

theorem space_iti_after_consonant:
  assumes "txt \<noteq> []"
    and "normalizeNFC h (trim txt) = word @ ws @ iti"
    and "word \<noteq> []" and "\<not> WhiteSpace (hd word)" and "\<not> WhiteSpace (last word)"
    and "ws \<noteq> []" and "\<forall>c \<in> set ws. WhiteSpace c"
    and "\<not> endsWithVowelMark word" and "\<not> endsWithVisargaOrAnusvara word"
  shows "\<exists>r. identifyPratika h txt = Some r \<and> isPratika r \<and> confidence r = 75
           \<and> pattern r = Some (ascii ''space-iti-inherent-a'') \<and> stem r = Some word"
proof -
  let ?t = "word @ ws @ iti"
  have len: "length ?t - 3 = length (word @ ws)"
    by (simp add: iti_def)
  have front: "take (length ?t - 3) ?t = word @ ws"
    unfolding len by simp
  obtain c cs where rv: "rev ws = c # cs"
    using \<open>ws \<noteq> []\<close> by (cases "rev ws") simp_all
  then have "c \<in> set ws"
    by (metis list.set_intros(1) set_rev)
  then have "WhiteSpace c"
    using assms(7) by simp
  then have space: "endsWithSpaceIti ?t"
    unfolding endsWithSpaceIti_def front by (simp add: rv endsWith_iff)
  have "dropWhile WhiteSpace (rev ws @ rev word) = rev word"
  proof -
    have "dropWhile WhiteSpace (rev ws @ rev word) = dropWhile WhiteSpace (rev word)"
      using assms(7) by (intro dropWhile_append2) simp
    also have "\<dots> = rev word"
      using assms(3,5) by (cases "rev word") (simp_all add: last_rev [symmetric] hd_rev)
    finally show ?thesis .
  qed
  then have "removeSpaceIti ?t = word"
    unfolding removeSpaceIti_def front using space by simp
  moreover have "trim word = word"
    using assms(3,4,5) by (rule trim_fixed)
  ultimately have wordBefore: "trim (removeSpaceIti ?t) = word"
    by simp
  show ?thesis
    using assms(1,2,8,9) space wordBefore
    by (simp add: identifyPratika_def Let_def)
qed

text \<open>The witness is the example of the source: \<open>ka r-sign pa aa-sign la va\<close>, a space, \<open>iti\<close>.\<close>

theorem space_iti_after_consonant_witness:
  "\<exists>r. identifyPratika plain_host
          ([0x915, 0x943, 0x92A, 0x93E, 0x932, 0x935] @ ascii '' '' @ [0x907, 0x924, 0x93F]) = Some r
     \<and> isPratika r \<and> confidence r = 75
     \<and> pattern r = Some (ascii ''space-iti-inherent-a'')
     \<and> stem r = Some [0x915, 0x943, 0x92A, 0x93E, 0x932, 0x935]"
  using space_iti_after_consonant [of
      "[0x915, 0x943, 0x92A, 0x93E, 0x932, 0x935] @ ascii '' '' @ [0x907, 0x924, 0x93F]"
      plain_host "[0x915, 0x943, 0x92A, 0x93E, 0x932, 0x935]" "ascii '' ''"]
  by (simp add: plain_host_def trim_def WhiteSpace_def iti_def ascii_def
        endsWithVowelMark_def endsWithVisargaOrAnusvara_def)

text \<open>
  Claim C4, as the code has it. For an argument that is falsy or not a string,
  \<open>identifyPratika\<close> returns \<open>null\<close>, not an analysis; \<open>search\<close> returns the empty result
  \<open>{matches: [], count: 0}\<close> whenever one of its two arguments is falsy. Neither call
  throws there.
\<close>

theorem invalid_input_results:
  "(\<forall>v. \<not> truthy v \<or> (\<forall>s. v \<noteq> JString s) \<longrightarrow> identifyPratika_value h v = None)
   \<and> (\<forall>a b. \<not> truthy a \<or> \<not> truthy b \<longrightarrow>
         search_value h this a b = Some (Inr \<lparr> matches = [], count = 0, searchTerm_r = None \<rparr>))"
proof (intro conjI allI impI)
  fix v
  assume "\<not> truthy v \<or> (\<forall>s. v \<noteq> JString s)"
  then show "identifyPratika_value h v = None"
    by (cases v) (auto simp: identifyPratika_value_def)
next
  fix a b
  assume "\<not> truthy a \<or> \<not> truthy b"
  then show "search_value h this a b = Some (Inr \<lparr> matches = [], count = 0, searchTerm_r = None \<rparr>)"
    by (auto simp: search_value_def emptyResults_def)
qed

theorem invalid_input_results_witness:
  "identifyPratika_value plain_host (JNumber 5) = None
   \<and> identifyPratika_value plain_host (JString []) = None
   \<and> (\<exists>this. new_SanskritSearch (Window True) no_options = Inr this
        \<and> search_value plain_host this JNull (JString [0x915])
             = Some (Inr \<lparr> matches = [], count = 0, searchTerm_r = None \<rparr>)
        \<and> search_value plain_host this (JString [0x915]) (JString [])
             = Some (Inr \<lparr> matches = [], count = 0, searchTerm_r = None \<rparr>))"
  using invalid_input_results [of plain_host "constructed True no_options"]
  by simp

text \<open>The claim as stated fails: for \<open>null\<close> there is no analysis with \<open>isPratika = false\<close>.\<close>

theorem identifyPratika_null_counterexample:
  "identifyPratika_value plain_host JNull = None
   \<and> \<not> (\<exists>r. identifyPratika_value plain_host JNull = Some r \<and> \<not> isPratika r)"
  by (simp add: identifyPratika_value_def)


subsection \<open>The sandhi map\<close>

text \<open>The two tables of \<open>createItiSandhiMap\<close>, as objects: in the forward table the key
  \<open>au\<close>, written twice, keeps its first place and its second value.\<close>

lemma reverse_table:
  "reverse createItiSandhiMap =
    [([0x947, 0x924, 0x93F], [[], [0x905], [0x906]]),
     ([0x940, 0x924, 0x93F], [[0x907], [0x908]]),
     ([0x942, 0x924, 0x93F], [[0x909], [0x90A]]),
     ([0x935, 0x940, 0x924, 0x93F], [[0x909], [0x90A]]),
     ([0x935, 0x93F, 0x924, 0x93F], [[0x909], [0x90A]]),
     ([0x930, 0x93F, 0x924, 0x93F], [[0x90B], [0x960]]),
     ([0x932, 0x93F, 0x924, 0x93F], [[0x90C], [0x961]]),
     ([0x948, 0x924, 0x93F], [[0x90F], [0x948]]),
     ([0x93E, 0x935, 0x940, 0x924, 0x93F], [[0x913], [0x914]]),
     ([0x93E, 0x935, 0x93F, 0x924, 0x93F], [[0x913], [0x914]]),
     ([0x94B, 0x93D, 0x924, 0x93F], [[0x913]]),
     ([0x92F, 0x947, 0x924, 0x93F], [[0x92F], [0x92F, 0x93E], [0x93E, 0x92F]]),
     ([0x947, 0x923, 0x947, 0x924, 0x93F], [[0x947, 0x923]]),
     ([0x93E, 0x926, 0x93F, 0x924, 0x93F], [[0x93E, 0x924, 0x94D]]),
     ([0x938, 0x94D, 0x92F, 0x947, 0x924, 0x93F], [[0x938, 0x94D, 0x92F]]),
     ([0x92E, 0x93F, 0x924, 0x93F], [[0x92E, 0x94D], [0x93E, 0x92E, 0x94D]]),
     ([0x92F, 0x93E, 0x92E, 0x93F, 0x924, 0x93F], [[0x92F, 0x93E, 0x92E, 0x94D]]),
     ([0x94C, 0x924, 0x93F], [[0x914]]),
     ([0x94B, 0x930, 0x93F, 0x924, 0x93F], [[0x92F, 0x94B, 0x903]]),
     ([0x92D, 0x94D, 0x92F, 0x93E, 0x92E, 0x93F, 0x924, 0x93F], [[0x92D, 0x94D, 0x92F, 0x93E, 0x92E, 0x94D]]),
     ([0x93E, 0x928, 0x93F, 0x924, 0x93F], [[0x93E, 0x928, 0x94D]]),
     ([0x948, 0x930, 0x93F, 0x924, 0x93F], [[0x948, 0x903]]),
     ([0x92D, 0x93F, 0x930, 0x93F, 0x924, 0x93F], [[0x92D, 0x93F, 0x903]]),
     ([0x947, 0x92D, 0x94D, 0x92F, 0x930, 0x93F, 0x924, 0x93F], [[0x947, 0x92D, 0x94D, 0x92F, 0x903]]),
     ([0x93E, 0x928, 0x93E, 0x92E, 0x93F, 0x924, 0x93F], [[0x93E, 0x928, 0x93E, 0x92E, 0x94D]]),
     ([0x923, 0x93E, 0x92E, 0x93F, 0x924, 0x93F], [[0x923, 0x93E, 0x92E, 0x94D]]),
     ([0x937, 0x94D, 0x935, 0x93F, 0x924, 0x93F], [[0x947, 0x937, 0x941]]),
     ([0x938, 0x94D, 0x935, 0x93F, 0x924, 0x93F], [[0x938, 0x941]]),
     ([0x92F, 0x93E, 0x930, 0x93F, 0x924, 0x93F], [[0x92F, 0x93E, 0x903]]),
     ([0x93E, 0x903] @ ascii '' '' @ [0x907, 0x924, 0x93F], [[0x93E, 0x903]]),
     ([0x93E] @ ascii '' '' @ [0x907, 0x924, 0x93F], [[0x93E, 0x903]])]"
  by (simp add: createItiSandhiMap_def object_literal_def ascii_def)

lemma forward_table:
  "forward createItiSandhiMap =
    [([], [0x947, 0x924, 0x93F]),
     ([0x905], [0x947, 0x924, 0x93F]),
     ([0x906], [0x947, 0x924, 0x93F]),
     ([0x907], [0x940, 0x924, 0x93F]),
     ([0x908], [0x940, 0x924, 0x93F]),
     ([0x909], [0x935, 0x940, 0x924, 0x93F]),
     ([0x90A], [0x935, 0x940, 0x924, 0x93F]),
     ([0x90B], [0x930, 0x93F, 0x924, 0x93F]),
     ([0x960], [0x930, 0x93F, 0x924, 0x93F]),
     ([0x90C], [0x932, 0x93F, 0x924, 0x93F]),
     ([0x961], [0x932, 0x93F, 0x924, 0x93F]),
     ([0x90F], [0x948, 0x924, 0x93F]),
     ([0x947], [0x948, 0x924, 0x93F]),
     ([0x910], [0x948, 0x924, 0x93F]),
     ([0x948], [0x948, 0x924, 0x93F]),
     ([0x913], [0x93E, 0x935, 0x940, 0x924, 0x93F]),
     ([0x914], [0x94C, 0x924, 0x93F]),
     ([0x92F], [0x92F, 0x947, 0x924, 0x93F]),
     ([0x92F, 0x93E], [0x92F, 0x947, 0x924, 0x93F]),
     ([0x93E, 0x92F], [0x93E, 0x92F, 0x947, 0x924, 0x93F]),
     ([0x947, 0x923], [0x947, 0x923, 0x947, 0x924, 0x93F]),
     ([0x93E, 0x924, 0x94D], [0x93E, 0x926, 0x93F, 0x924, 0x93F]),
     ([0x938, 0x94D, 0x92F], [0x938, 0x94D, 0x92F, 0x947, 0x924, 0x93F]),
     ([0x92E, 0x94D], [0x92E, 0x93F, 0x924, 0x93F]),
     ([0x93E, 0x92E, 0x94D], [0x92E, 0x93F, 0x924, 0x93F]),
     ([0x92F, 0x93E, 0x92E, 0x94D], [0x92F, 0x93E, 0x92E, 0x93F, 0x924, 0x93F]),
     ([0x92F, 0x94B, 0x903], [0x94B, 0x930, 0x93F, 0x924, 0x93F]),
     ([0x92D, 0x94D, 0x92F, 0x93E, 0x92E, 0x94D], [0x92D, 0x94D, 0x92F, 0x93E, 0x92E, 0x93F, 0x924, 0x93F]),
     ([0x93E, 0x928, 0x94D], [0x93E, 0x928, 0x93F, 0x924, 0x93F]),
     ([0x948, 0x903], [0x948, 0x930, 0x93F, 0x924, 0x93F]),
     ([0x92D, 0x93F, 0x903], [0x92D, 0x93F, 0x930, 0x93F, 0x924, 0x93F]),
     ([0x947, 0x92D, 0x94D, 0x92F, 0x903], [0x947, 0x92D, 0x94D, 0x92F, 0x930, 0x93F, 0x924, 0x93F]),
     ([0x93E, 0x928, 0x93E, 0x92E, 0x94D], [0x93E, 0x928, 0x93E, 0x92E, 0x93F, 0x924, 0x93F]),
     ([0x923, 0x93E, 0x92E, 0x94D], [0x923, 0x93E, 0x92E, 0x93F, 0x924, 0x93F]),
     ([0x947, 0x937, 0x941], [0x937, 0x94D, 0x935, 0x93F, 0x924, 0x93F]),
     ([0x938, 0x941], [0x938, 0x94D, 0x935, 0x93F, 0x924, 0x93F]),
     ([0x92F, 0x93E, 0x903], [0x92F, 0x93E, 0x930, 0x93F, 0x924, 0x93F]),
     ([0x93E, 0x903], [0x93E, 0x903] @ ascii '' '' @ [0x907, 0x924, 0x93F])]"
  by (simp add: createItiSandhiMap_def object_literal_def ascii_def)

lemma reverse_keys_distinct: "distinct (map fst (reverse createItiSandhiMap))"
  unfolding reverse_table by (simp add: ascii_def)

lemma reverse_hit:
  assumes "(p, ends) \<in> set (reverse m)" and "distinct (map fst (reverse m))"
    and "e \<in> set ends" and "p \<noteq> []"
  shows "b @ e \<in> v_text ` set (reverseCandidates m (b @ p))"
proof -
  have key: "p \<in> set (sortLongestFirst (map fst (reverse m)))"
    using assms(1) by (force simp: sortLongestFirst_def)
  have "map_of (reverse m) p = Some ends"
    using assms(1,2) by simp
  then have look: "lookup (reverse m) p = ends"
    by (simp add: lookup_def)
  have "slice (b @ p) 0 (- int (length p)) = b"
    using assms(4) by (rule slice_drop_suffix)
  then have "\<lparr> v_text = b @ e,
               v_rule = p @ ascii ''->'' @ (if e = [] then ascii ''stem'' else e) \<rparr>
      \<in> set (reverseCandidates m (b @ p))"
    unfolding reverseCandidates_def using key assms(3) look
    by (auto simp: Let_def intro!: bexI [of _ p])
  then show ?thesis
    by force
qed

lemma goesRound_round_trip:
  assumes "goesRound m (e, s)" and "distinct (map fst (reverse m))"
  shows "base @ e \<in> v_text ` set (generatePratikaVariations m (base @ s))"
proof -
  from assms(1) obtain p ends e' where
    entry: "(p, ends) \<in> set (reverse m)" "p \<noteq> []" "endsWith s p"
    and e': "e' \<in> set ends" "take (length s - length p) s @ e' = e"
    by (auto simp: goesRound_def)
  from entry(3) obtain x where s: "s = x @ p"
    by (auto simp: endsWith_iff)
  with e' have e: "e = x @ e'"
    by simp
  have "(base @ x) @ e' \<in> v_text ` set (reverseCandidates m ((base @ x) @ p))"
    using entry(1) assms(2) e'(1) entry(2) by (rule reverse_hit)
  then show ?thesis
    by (simp add: generatePratikaVariations_def s e image_Un)
qed

lemma forward_entries_go_round:
  "\<forall>entry \<in> set (forward createItiSandhiMap).
     fst entry \<noteq> [0x947] \<and> fst entry \<noteq> [0x910] \<longrightarrow> goesRound createItiSandhiMap entry"
  unfolding forward_table goesRound_def reverse_table
  by (simp add: endsWith_def ascii_def)

text \<open>
  Claim C3, as the code has it. For every entry \<open>(e, s)\<close> of the forward table other than
  those of the keys \<open>e-sign\<close> (U+0947) and \<open>ai\<close> (U+0910), and for every word \<open>base @ e\<close>,
  the candidates generated from the quoted form \<open>base @ s\<close> contain the word.
\<close>

theorem forward_entries_round_trip:
  "\<forall>(e, s) \<in> set (forward createItiSandhiMap). e \<noteq> [0x947] \<and> e \<noteq> [0x910] \<longrightarrow>
     (\<forall>base. base @ e \<in> v_text ` set (generatePratikaVariations createItiSandhiMap (base @ s)))"
proof (intro ballI, clarify)
  fix e s base
  assume "(e, s) \<in> set (forward createItiSandhiMap)" and "e \<noteq> [0x947]" and "e \<noteq> [0x910]"
  with forward_entries_go_round have "goesRound createItiSandhiMap (e, s)"
    by fastforce
  then show "base @ e \<in> v_text ` set (generatePratikaVariations createItiSandhiMap (base @ s))"
    using reverse_keys_distinct by (rule goesRound_round_trip)
qed

text \<open>The witness: the entry from \<open>ma virama\<close> to \<open>ma i-sign ta i-sign\<close>, after \<open>ra aa-sign ma\<close>.\<close>

theorem forward_entries_round_trip_witness:
  "([0x92E, 0x94D], [0x92E, 0x93F, 0x924, 0x93F]) \<in> set (forward createItiSandhiMap)
   \<and> [0x930, 0x93E, 0x92E, 0x92E, 0x94D]
       \<in> v_text ` set (generatePratikaVariations createItiSandhiMap
                        [0x930, 0x93E, 0x92E, 0x92E, 0x93F, 0x924, 0x93F])"
proof -
  have entry: "([0x92E, 0x94D], [0x92E, 0x93F, 0x924, 0x93F]) \<in> set (forward createItiSandhiMap)"
    unfolding forward_table by simp
  with forward_entries_round_trip
  have "\<forall>base. base @ [0x92E, 0x94D]
      \<in> v_text ` set (generatePratikaVariations createItiSandhiMap (base @ [0x92E, 0x93F, 0x924, 0x93F]))"
    by fastforce
  from this [rule_format, of "[0x930, 0x93E, 0x92E]"] entry show ?thesis
    by simp
qed

text \<open>
  The two entries left out do not go round: from \<open>ra aa-sign ma ai-sign ta i-sign\<close> the only
  candidates are the words in \<open>e\<close> (U+090F) and in \<open>ai-sign\<close> (U+0948).
\<close>

lemma raamaiti_candidates:
  "map v_text (generatePratikaVariations createItiSandhiMap [0x930, 0x93E, 0x92E, 0x948, 0x924, 0x93F])
     = [[0x930, 0x93E, 0x92E, 0x90F], [0x930, 0x93E, 0x92E, 0x948]]"
  unfolding generatePratikaVariations_def reverseCandidates_def forwardCandidates_def
    reverse_table forward_table sortLongestFirst_def
  by (simp add: endsWith_def slice_def lookup_def ascii_def)

theorem forward_entries_round_trip_counterexample:
  "([0x947], [0x948, 0x924, 0x93F]) \<in> set (forward createItiSandhiMap)
   \<and> endsWith [0x930, 0x93E, 0x92E, 0x947] [0x947]
   \<and> [0x930, 0x93E, 0x92E] @ [0x947]
        \<notin> v_text ` set (generatePratikaVariations createItiSandhiMap
                         ([0x930, 0x93E, 0x92E] @ [0x948, 0x924, 0x93F]))
   \<and> ([0x910], [0x948, 0x924, 0x93F]) \<in> set (forward createItiSandhiMap)
   \<and> endsWith [0x930, 0x93E, 0x92E, 0x910] [0x910]
   \<and> [0x930, 0x93E, 0x92E] @ [0x910]
        \<notin> v_text ` set (generatePratikaVariations createItiSandhiMap
                         ([0x930, 0x93E, 0x92E] @ [0x948, 0x924, 0x93F]))"
proof -
  have "v_text ` set (generatePratikaVariations createItiSandhiMap [0x930, 0x93E, 0x92E, 0x948, 0x924, 0x93F])
      = {[0x930, 0x93E, 0x92E, 0x90F], [0x930, 0x93E, 0x92E, 0x948]}"
    using arg_cong [OF raamaiti_candidates, of set] by simp
  then show ?thesis
    by (simp add: forward_table endsWith_def)
qed


subsection \<open>Direct search\<close>

lemma indexOf_scan_Some:
  "indexOf_scan p xs i = Some j \<Longrightarrow>
     i \<le> j \<and> j \<le> i + length xs \<and> take (length p) (drop (j - i) xs) = p"
proof (induction xs arbitrary: i)
  case Nil
  then show ?case by (simp split: if_splits)
next
  case (Cons x xs)
  show ?case
  proof (cases "take (length p) (x # xs) = p")
    case True
    with Cons.prems show ?thesis by simp
  next
    case False
    with Cons.prems have "indexOf_scan p xs (Suc i) = Some j" by simp
    from Cons.IH [OF this]
    have j: "Suc i \<le> j" "j \<le> Suc i + length xs" "take (length p) (drop (j - Suc i) xs) = p"
      by simp_all
    from j(1) have "j - i = Suc (j - Suc i)"
      by simp
    with j show ?thesis
      by simp
  qed
qed

lemma indexOf_Some:
  assumes "indexOf s p from = Some j"
  shows "min from (length s) \<le> j" and "j \<le> length s" and "take (length p) (drop j s) = p"
proof -
  let ?k = "min from (length s)"
  from assms have scan: "indexOf_scan p (drop ?k s) ?k = Some j"
    by (simp add: indexOf_def Let_def)
  from indexOf_scan_Some [OF scan]
  have j: "?k \<le> j" "j \<le> ?k + length (drop ?k s)" "take (length p) (drop (j - ?k) (drop ?k s)) = p"
    by blast+
  show "?k \<le> j" by fact
  show "j \<le> length s" using j(2) by simp
  from j(1) have "j - ?k + ?k = j" by simp
  with j(3) show "take (length p) (drop j s) = p" by (simp del: min.absorb1 min.absorb2 min.absorb3 min.absorb4)
qed

lemma indexOf_Some_nonempty:
  assumes "indexOf s p from = Some j" and "p \<noteq> []"
  shows "from \<le> j" and "j < length s"
proof -
  from indexOf_Some [OF assms(1)]
  have j: "min from (length s) \<le> j" "j \<le> length s" "take (length p) (drop j s) = p"
    by simp_all
  show lt: "j < length s"
  proof (rule ccontr)
    assume "\<not> j < length s"
    with j(2) have "drop j s = []" by simp
    with j(3) assms(2) show False by simp
  qed
  with j(1) show "from \<le> j" by simp
qed

lemma substr_int_nat: "substr_int s (int p) (int n) = take n (drop p s)"
  by (cases "p \<le> length s") (simp_all add: substr_int_def Let_def min_def)

lemma directSearchLoop_hits_step:
  assumes returns: "directSearchLoop cfg0 searchTerm0 tx0 searchStr0 textStr0 mk0 pos0 ms0 = Some res0"
  shows "(\<forall>m \<in> set ms0. directHit searchTerm0 tx0 searchStr0 textStr0 mk0 m) \<longrightarrow>
     (\<forall>m \<in> set res0. directHit searchTerm0 tx0 searchStr0 textStr0 mk0 m)"
proof (rule directSearchLoop.raw_induct [where P = "\<lambda>cfg searchTerm tx searchStr textStr mk pos ms res.
     (\<forall>m \<in> set ms. directHit searchTerm tx searchStr textStr mk m) \<longrightarrow>
     (\<forall>m \<in> set res. directHit searchTerm tx searchStr textStr mk m)", OF _ returns], goal_cases)
  case (1 loop cfg searchTerm tx searchStr textStr mk pos ms res)
  note IH = 1(1) and unfolded = 1(2)
  show ?case
  proof (cases "indexOf textStr searchStr pos")
    case None
    with unfolded show ?thesis by simp
  next
    case (Some p)
    let ?len = "if \<not> mk then length searchTerm
        + length (takeWhile sanskritEndings (drop (p + length searchTerm) tx)) else length searchTerm"
    let ?m = "\<lparr> position = int p, length_m = ?len,
                 matchedText = substr_int tx (int p) (int ?len),
                 context_m = getContext cfg tx (int p) ?len,
                 type_m = direct, variant = None, sandhiRule = None, originalTerm = None \<rparr>"
    from indexOf_Some [OF Some]
    have "p \<le> length textStr" "take (length searchStr) (drop p textStr) = searchStr"
      by simp_all
    then have hit: "directHit searchTerm tx searchStr textStr mk ?m"
      by (auto simp: directHit_def substr_int_nat)
    from unfolded Some
    have "loop cfg searchTerm tx searchStr textStr mk (p + length searchTerm) (ms @ [?m]) = Some res"
      by (simp add: Let_def)
    from IH [OF this] hit show ?thesis
      by simp
  qed
qed

lemma directSearchLoop_hits:
  assumes "directSearchLoop cfg searchTerm tx searchStr textStr mk pos ms = Some res"
    and "\<forall>m \<in> set ms. directHit searchTerm tx searchStr textStr mk m"
  shows "\<forall>m \<in> set res. directHit searchTerm tx searchStr textStr mk m"
  using directSearchLoop_hits_step [OF assms(1)] assms(2) by blast

lemma directSearchLoop_returns:
  assumes "searchTerm \<noteq> []" and "searchStr \<noteq> []"
  shows "\<exists>res. directSearchLoop cfg searchTerm tx searchStr textStr mk pos ms = Some res"
proof (induction "length textStr - pos" arbitrary: pos ms rule: less_induct)
  case less
  show ?case
  proof (cases "indexOf textStr searchStr pos")
    case None
    then show ?thesis
      by (subst directSearchLoop.simps) simp
  next
    case (Some p)
    from indexOf_Some_nonempty [OF Some assms(2)] have "pos \<le> p" "p < length textStr"
      by simp_all
    with assms(1) have "length textStr - (p + length searchTerm) < length textStr - pos"
      by (cases searchTerm) simp_all
    from less [OF this] Some show ?thesis
      by (subst directSearchLoop.simps) (simp add: Let_def)
  qed
qed


lemmas direct_eval =
  directSearch_def directSearchLoop.simps indexOf_def Let_def sanskritEndings_def
  substr_int_def plain_host_def constructed_def no_options_def

lemma plain_host_simps:
  "normalizeNFC plain_host s = s" "toLowerCase plain_host s = s"
  by (simp_all add: plain_host_def)

lemma generateVariations_deva:
  "map v_text (generateVariations new_SanskritSandhiRules [0x926, 0x947, 0x935]) =
     [[0x926, 0x947, 0x935],
      [0x926, 0x947, 0x909, 0x905],
      [0x903, 0x5B, 0x905, 0x907, 0x909, 0x90B, 0x90F, 0x913, 0x5D, 0x926, 0x947, 0x935]]"
  by (simp add: generateVariations_def trySplitSandhi_def tryEndingVariations_def
        tryVowelCombinations_def new_SanskritSandhiRules_def splitAt_def indexOf_def
        endsWith_def ascii_def Let_def)

lemma search_deva:
  "map_option (\<lambda>r. (map (\<lambda>m. (position m, length_m m, matchedText m, type_m m)) (matches r), count r))
     (search plain_host (constructed w no_options) [0x926, 0x947, 0x935]
        [0x926, 0x947, 0x935, 0x94B, 0x93D, 0x938, 0x941, 0x930, 0x947, 0x92D, 0x94D, 0x92F, 0x94B,
         0x20, 0x92C, 0x932, 0x92E, 0x926, 0x926, 0x93E, 0x924, 0x94D])
   = Some ([(0, 4, [0x926, 0x947, 0x935, 0x94B], direct)], 1)"
proof -
  let ?S = "constructed w no_options"
  let ?needle = "[0x926, 0x947, 0x935] :: jstring"
  let ?tx = "[0x926, 0x947, 0x935, 0x94B, 0x93D, 0x938, 0x941, 0x930, 0x947, 0x92D, 0x94D, 0x92F, 0x94B,
         0x20, 0x92C, 0x932, 0x92E, 0x926, 0x926, 0x93E, 0x924, 0x94D] :: jstring"
  have fuzzy: "\<not> hasEndingMarker ?needle"
    by (simp add: hasEndingMarker_def)
  have d: "map_option (map (\<lambda>m. (position m, length_m m, matchedText m, type_m m)))
      (directSearch plain_host ?S ?needle ?tx) = Some [(0, 4, [0x926, 0x947, 0x935, 0x94B], direct)]"
    by (simp add: direct_eval)
  then obtain dm where dm: "directSearch plain_host ?S ?needle ?tx = Some dm"
      "map (\<lambda>m. (position m, length_m m, matchedText m, type_m m)) dm
         = [(0, 4, [0x926, 0x947, 0x935, 0x94B], direct)]"
    by auto
  then obtain m0 where m0: "dm = [m0]" "position m0 = 0" "length_m m0 = 4"
    by (auto simp: map_eq_Cons_conv)
  have v2: "directSearch plain_host ?S [0x926, 0x947, 0x909, 0x905] ?tx = Some []"
    by (simp add: direct_eval)
  have v3: "directSearch plain_host ?S
      [0x903, 0x5B, 0x905, 0x907, 0x909, 0x90B, 0x90F, 0x913, 0x5D, 0x926, 0x947, 0x935] ?tx = Some []"
    by (simp add: direct_eval)
  have sorted: "sortByPosition [m0] = [m0]"
    by (simp add: sortByPosition_def)
  have limit: "limitResults (config ?S) [m0] = [m0]"
    by (simp add: limitResults_def constructed_def no_options_def)
  have merged: "\<exists>sm. (if enableSandhi (config ?S) \<and> sandhiRules ?S \<noteq> None
                    then sandhiAwareSearch plain_host ?S ?needle ?tx else Some []) = Some sm
               \<and> mergeMatches dm sm = dm"
  proof (cases w)
    case False
    then show ?thesis
      by (simp add: constructed_def)
  next
    case True
    obtain vs where vs: "generateVariations new_SanskritSandhiRules ?needle = vs"
        "map v_text vs = [[0x926, 0x947, 0x935], [0x926, 0x947, 0x909, 0x905],
           [0x903, 0x5B, 0x905, 0x907, 0x909, 0x90B, 0x90F, 0x913, 0x5D, 0x926, 0x947, 0x935]]"
      using generateVariations_deva by simp
    then obtain a b c where abc: "vs = [a, b, c]" "v_text a = [0x926, 0x947, 0x935]"
        "v_text b = [0x926, 0x947, 0x909, 0x905]"
        "v_text c = [0x903, 0x5B, 0x905, 0x907, 0x909, 0x90B, 0x90F, 0x913, 0x5D, 0x926, 0x947, 0x935]"
      by (auto simp: map_eq_Cons_conv)
    have sr: "sandhiRules ?S = Some new_SanskritSandhiRules" "enableSandhi (config ?S)"
      using True by (simp_all add: constructed_def no_options_def)
    have "sandhiAwareSearch plain_host ?S ?needle ?tx
        = Some [m0\<lparr> type_m := sandhi, sandhiRule := Some (v_rule a), originalTerm := Some ?needle \<rparr>]"
      by (simp add: sandhiAwareSearch_def sr vs(1) abc dm(1) m0(1) v2 v3)
    then show ?thesis
      using sr m0 by (simp add: isDuplicate_def)
  qed
  then obtain sm where sm: "(if enableSandhi (config ?S) \<and> sandhiRules ?S \<noteq> None
        then sandhiAwareSearch plain_host ?S ?needle ?tx else Some []) = Some sm"
      "mergeMatches dm sm = dm"
    by blast
  have "search plain_host ?S ?needle ?tx
      = Some \<lparr> matches = [m0], count = 1, searchTerm_r = Some ?needle \<rparr>"
    unfolding search_def
    using dm(1) sm by (simp add: plain_host_simps fuzzy sorted limit m0(1) Let_def)
  then show ?thesis
    using dm(2) m0(1) by simp
qed


subsection \<open>Evaluation of the search\<close>

lemma execFrom_unfold:
  "execFrom txt v fuel i =
     (if fuel = 0 then None
      else case matchAt txt v i of
             Some (l, t) \<Rightarrow> Some (i, l, t)
           | None \<Rightarrow> execFrom txt v (fuel - 1) (Suc i))"
  by (cases fuel) (auto split: option.splits)

lemmas exec_eval =
  exec_def execFrom_unfold matchAt_def variantAt_def trailingBoundary_def boundaryChar_def
  WhiteSpace_def

lemmas loop_eval =
  wordBoundaryLoop.simps substringLoop.simps directSearchLoop.simps
  endsWithBoundaryChar_def pushUnlessSamePosition_def exactMatch_def indexOf_def Let_def
  sanskritEndings_def substr_int_def

lemmas variants_eval =
  generatePhoneticVariants_def phoneticSteps_def includes_str_def indexOf_def

lemma variants_ka_anusvara:
  "generatePhoneticVariants [0x915, 0x902] = [[0x915, 0x902], [0x915, 0x92E, 0x94D]]"
  by (simp add: variants_eval)

lemma marker_ka_anusvara: "hasEndingMarker [0x915, 0x902]"
  by (simp add: hasEndingMarker_def)

lemma search_kam_twice:
  "\<exists>r. search plain_host (constructed w (no_options\<lparr>maxResults_opt := Some 1\<rparr>))
          [0x915, 0x902] [0x915, 0x902, 0x20, 0x20, 0x915, 0x902] = Some r
     \<and> map (\<lambda>m. (position m, length_m m, type_m m)) (matches r) = [(0, 2, exact), (4, 2, exact)]
     \<and> count r = 2"
proof -
  let ?S = "constructed w (no_options\<lparr>maxResults_opt := Some 1\<rparr>)"
  let ?tx = "[0x915, 0x902, 0x20, 0x20, 0x915, 0x902] :: jstring"
  have first: "map_option (map (\<lambda>m. (position m, length_m m, type_m m)))
        (searchVariant (config ?S) [0x915, 0x902] ?tx [] [0x915, 0x902])
      = Some [(0, 2, exact), (4, 2, exact)]"
    by (simp add: searchVariant_def loop_eval exec_eval)
  then obtain ms where ms: "searchVariant (config ?S) [0x915, 0x902] ?tx [] [0x915, 0x902] = Some ms"
      "map (\<lambda>m. (position m, length_m m, type_m m)) ms = [(0, 2, exact), (4, 2, exact)]"
    by auto
  then have "ms \<noteq> []"
    by auto
  have poss: "map position ms = [0, 4]"
    using ms(2) by (auto simp: map_eq_Cons_conv)
  have second: "searchVariant (config ?S) [0x915, 0x902] ?tx ms [0x915, 0x92E, 0x94D] = Some ms"
    using \<open>ms \<noteq> []\<close> by (simp add: searchVariant_def loop_eval exec_eval)
  have sorted: "sortByPosition ms = ms"
    unfolding sortByPosition_def using poss
    by (intro sort_key_id_if_sorted) simp
  have "search plain_host ?S [0x915, 0x902] ?tx
      = Some \<lparr> matches = ms, count = length ms, searchTerm_r = Some [0x915, 0x902] \<rparr>"
    by (simp add: search_def exactWordSearch_def plain_host_def marker_ka_anusvara
          variants_ka_anusvara ms(1) second sorted)
  moreover have "length ms = 2"
    using arg_cong [OF ms(2), of length] by simp
  ultimately show ?thesis
    using ms(2) by simp
qed

text \<open>
  Claim C7. With \<open>maxResults = 1\<close>, the search for \<open>ka anusvara\<close> in the text made of
  \<open>ka anusvara\<close>, two spaces and \<open>ka anusvara\<close> runs in precision mode and returns two
  matches, at the positions 0 and 4: the result of \<open>exactWordSearch\<close> is returned as it
  is, without the cut to \<open>maxResults\<close> that the other mode makes.
\<close>

theorem precision_mode_exceeds_maxResults:
  "\<exists>this. new_SanskritSearch (Window w) (no_options\<lparr>maxResults_opt := Some 1\<rparr>) = Inr this
     \<and> maxResults (config this) = 1
     \<and> (\<exists>r. search plain_host this [0x915, 0x902] [0x915, 0x902, 0x20, 0x20, 0x915, 0x902] = Some r
            \<and> map (\<lambda>m. (position m, length_m m, type_m m)) (matches r) = [(0, 2, exact), (4, 2, exact)]
            \<and> count r = 2 \<and> length (matches r) = 2)"
proof -
  let ?S = "constructed w (no_options\<lparr>maxResults_opt := Some 1\<rparr>)"
  from search_kam_twice [of w] obtain r where
    r: "search plain_host ?S [0x915, 0x902] [0x915, 0x902, 0x20, 0x20, 0x915, 0x902] = Some r"
      "map (\<lambda>m. (position m, length_m m, type_m m)) (matches r) = [(0, 2, exact), (4, 2, exact)]"
      "count r = 2"
    by auto
  from arg_cong [OF r(2), of length] have "length (matches r) = 2"
    by simp
  with r have "\<exists>r. search plain_host ?S [0x915, 0x902] [0x915, 0x902, 0x20, 0x20, 0x915, 0x902] = Some r
      \<and> map (\<lambda>m. (position m, length_m m, type_m m)) (matches r) = [(0, 2, exact), (4, 2, exact)]
      \<and> count r = 2 \<and> length (matches r) = 2"
    by simp
  moreover have "maxResults (config ?S) = 1"
    by (simp add: constructed_def no_options_def)
  moreover have "new_SanskritSearch (Window w) (no_options\<lparr>maxResults_opt := Some 1\<rparr>) = Inr ?S"
    by simp
  ultimately show ?thesis
    by simp
qed

theorem precision_mode_exceeds_maxResults_witness:
  "\<exists>this r. new_SanskritSearch (Window True) (no_options\<lparr>maxResults_opt := Some 1\<rparr>) = Inr this
     \<and> search plain_host this [0x915, 0x902] [0x915, 0x902, 0x20, 0x20, 0x915, 0x902] = Some r
     \<and> int (length (matches r)) > maxResults (config this)"
  using precision_mode_exceeds_maxResults [of True] by auto


lemma directSearch_hits:
  assumes "directSearch h this searchTerm tx = Some ms" and "m \<in> set ms"
  shows "directHit searchTerm tx
           (if caseSensitive (config this) then searchTerm else toLowerCase h searchTerm)
           (if caseSensitive (config this) then tx else toLowerCase h tx)
           (searchTerm \<noteq> [] \<and> sanskritEndings (last searchTerm)) m"
proof -
  from assms(1) have "directSearchLoop (config this) searchTerm tx
      (if caseSensitive (config this) then searchTerm else toLowerCase h searchTerm)
      (if caseSensitive (config this) then tx else toLowerCase h tx)
      (searchTerm \<noteq> [] \<and> sanskritEndings (last searchTerm)) 0 [] = Some ms"
    by (simp add: directSearch_def Let_def)
  from directSearchLoop_hits [OF this] assms(2) show ?thesis
    by simp
qed

lemma directSearch_returns:
  assumes "searchTerm \<noteq> []"
    and "(if caseSensitive (config this) then searchTerm else toLowerCase h searchTerm) \<noteq> []"
  shows "\<exists>ms. directSearch h this searchTerm tx = Some ms"
  unfolding directSearch_def Let_def
  using assms by (intro directSearchLoop_returns)

lemma sanskritEndings_marker:
  assumes "t \<noteq> []" and "sanskritEndings (last t)"
  shows "hasEndingMarker t"
proof -
  have "\<forall>c \<in> {0x902, 0x903, 0x901, 0x93E, 0x93F, 0x940, 0x941, 0x942, 0x947, 0x948, 0x94B, 0x94C,
               0x943, 0x944, 0x962, 0x963, 0x94D, 0x1CF5, 0x1CF6 :: nat}. hasEndingMarker [c]"
    by (simp add: hasEndingMarker_def)
  from this assms(2) [unfolded sanskritEndings_def] have "hasEndingMarker [last t]"
    by (rule bspec)
  with assms(1) show ?thesis
    by (simp add: hasEndingMarker_def)
qed

lemma sandhiVariantSearch_types:
  "sandhiVariantSearch h this searchTerm tx vs = Some ms \<Longrightarrow> \<forall>m \<in> set ms. type_m m = sandhi"
proof (induction vs arbitrary: ms)
  case Nil
  then show ?case by simp
next
  case (Cons v vs)
  from Cons.prems obtain found rest where
    rest: "sandhiVariantSearch h this searchTerm tx vs = Some rest"
    and ms: "ms = map (\<lambda>m. m\<lparr> type_m := sandhi, sandhiRule := Some (v_rule v),
                                  originalTerm := Some searchTerm \<rparr>) found @ rest"
    by (auto split: option.splits)
  from Cons.IH [OF rest] show ?case
    unfolding ms by auto
qed

lemma set_mergeMatches: "set (mergeMatches ms extra) \<subseteq> set ms \<union> set extra"
proof (induction extra arbitrary: ms)
  case Nil
  then show ?case by simp
next
  case (Cons m extra)
  from Cons.IH [of "if isDuplicate m ms then ms else ms @ [m]"] show ?case
    by (auto split: if_splits)
qed

lemma set_limitResults: "set (limitResults cfg ms) \<subseteq> set ms"
  unfolding limitResults_def by (auto dest: in_set_takeD)

text \<open>In fuzzy mode, a match of type \<open>direct\<close> in the result of \<open>search\<close> is a match of
  \<open>directSearch\<close> for the term.\<close>

lemma search_direct_matches:
  assumes r: "search h this searchTerm tx = Some r"
    and fuzzy: "\<not> hasEndingMarker (normalizeNFC h searchTerm)"
    and m: "m \<in> set (matches r)" "type_m m = direct"
  shows "\<exists>dm. directSearch h this (normalizeNFC h searchTerm) (normalizeNFC h tx) = Some dm
           \<and> m \<in> set dm"
proof (cases "searchTerm = [] \<or> tx = []")
  case True
  with r m(1) show ?thesis
    by (auto simp: search_def emptyResults_def)
next
  case False
  let ?q = "normalizeNFC h searchTerm"
  let ?t = "normalizeNFC h tx"
  from False r fuzzy have "\<exists>dm sm. directSearch h this ?q ?t = Some dm
      \<and> (sm = [] \<or> sandhiAwareSearch h this ?q ?t = Some sm)
      \<and> matches r = limitResults (config this) (sortByPosition (mergeMatches dm sm))"
    by (auto simp: search_def Let_def simp del: mergeMatches.simps
          split: option.splits if_splits)
  then obtain dm sm where dm: "directSearch h this ?q ?t = Some dm"
    and sm: "sm = [] \<or> sandhiAwareSearch h this ?q ?t = Some sm"
    and ms: "matches r = limitResults (config this) (sortByPosition (mergeMatches dm sm))"
    by blast
  from sm have "\<forall>m \<in> set sm. type_m m = sandhi"
    by (auto simp: sandhiAwareSearch_def split: option.splits dest: sandhiVariantSearch_types)
  with m(2) have "m \<notin> set sm"
    by auto
  moreover from m(1) set_limitResults have "m \<in> set (sortByPosition (mergeMatches dm sm))"
    unfolding ms by blast
  then have "m \<in> set (mergeMatches dm sm)"
    by (simp add: sortByPosition_def)
  with set_mergeMatches have "m \<in> set dm \<union> set sm"
    by blast
  ultimately have "m \<in> set dm"
    by simp
  with dm show ?thesis
    by blast
qed

lemma variants_rama:
  "generatePhoneticVariants [0x930, 0x93E, 0x92E] = [[0x930, 0x93E, 0x92E]]"
  by (simp add: variants_eval)

lemma search_rama:
  "\<exists>r. search plain_host (constructed w no_options) [0x930, 0x93E, 0x92E]
          [0x930, 0x93E, 0x92E, 0x94B, 0x20, 0x930, 0x93E, 0x92E, 0x903] = Some r
     \<and> map (\<lambda>m. (position m, length_m m, matchedText m, type_m m)) (matches r)
          = [(0, 3, [0x930, 0x93E, 0x92E], exact), (5, 3, [0x930, 0x93E, 0x92E], exact)]
     \<and> count r = 2"
proof -
  let ?S = "constructed w no_options"
  let ?tx = "[0x930, 0x93E, 0x92E, 0x94B, 0x20, 0x930, 0x93E, 0x92E, 0x903] :: jstring"
  have marker: "hasEndingMarker [0x930, 0x93E, 0x92E]"
    by (simp add: hasEndingMarker_def)
  have first: "map_option (map (\<lambda>m. (position m, length_m m, matchedText m, type_m m)))
        (searchVariant (config ?S) [0x930, 0x93E, 0x92E] ?tx [] [0x930, 0x93E, 0x92E])
      = Some [(0, 3, [0x930, 0x93E, 0x92E], exact), (5, 3, [0x930, 0x93E, 0x92E], exact)]"
    by (simp add: searchVariant_def loop_eval exec_eval)
  then obtain ms where ms: "searchVariant (config ?S) [0x930, 0x93E, 0x92E] ?tx [] [0x930, 0x93E, 0x92E] = Some ms"
      "map (\<lambda>m. (position m, length_m m, matchedText m, type_m m)) ms
         = [(0, 3, [0x930, 0x93E, 0x92E], exact), (5, 3, [0x930, 0x93E, 0x92E], exact)]"
    by auto
  have "map position ms = [0, 5]"
    using ms(2) by (auto simp: map_eq_Cons_conv)
  then have sorted: "sortByPosition ms = ms"
    unfolding sortByPosition_def by (intro sort_key_id_if_sorted) simp
  have "search plain_host ?S [0x930, 0x93E, 0x92E] ?tx
      = Some \<lparr> matches = ms, count = length ms, searchTerm_r = Some [0x930, 0x93E, 0x92E] \<rparr>"
    by (simp add: search_def exactWordSearch_def plain_host_def marker variants_rama ms(1) sorted)
  moreover have "length ms = 2"
    using arg_cong [OF ms(2), of length] by simp
  ultimately show ?thesis
    using ms(2) by simp
qed

text \<open>
  Claim C8. In fuzzy mode, every match of type \<open>direct\<close> that \<open>search\<close> returns starts where
  the term occurs in the text and is extended over all the trailing marks that follow
  the occurrence. Every match of \<open>directSearch\<close> is such a match when the term does not
  end in a trailing mark; when it does, the length of the match is that of the term.
  \<open>directSearch\<close> returns for every term that is not empty (and whose lower case is not
  empty, when case is ignored). The search for \<open>da e-sign va\<close> in the sentence of the
  specification returns one match, of type \<open>direct\<close>, at position 0 with length 4 and the
  text \<open>da e-sign va o-sign\<close>, whether the sandhi rules are loaded or not.

  But a term that ends in the bare letter \<open>ma\<close> has no trailing mark and is all the same
  searched in precision mode, since the class of \<open>hasEndingMarker\<close> holds the letter
  \<open>ma\<close>: the search for \<open>ra aa-sign ma\<close> in the text \<open>ra aa-sign ma o-sign, space, ra
  aa-sign ma visarga\<close> returns two matches of type \<open>exact\<close> and length 3, although a
  trailing mark follows each of the two occurrences.
\<close>

theorem term_ending_in_ma_is_not_extended:
  "(\<forall>h this searchTerm tx r m.
      search h this searchTerm tx = Some r \<longrightarrow> \<not> hasEndingMarker (normalizeNFC h searchTerm) \<longrightarrow>
      m \<in> set (matches r) \<longrightarrow> type_m m = direct \<longrightarrow>
      (\<exists>p. position m = int p
         \<and> take (length (if caseSensitive (config this) then normalizeNFC h searchTerm
                          else toLowerCase h (normalizeNFC h searchTerm)))
              (drop p (if caseSensitive (config this) then normalizeNFC h tx
                       else toLowerCase h (normalizeNFC h tx)))
             = (if caseSensitive (config this) then normalizeNFC h searchTerm
                else toLowerCase h (normalizeNFC h searchTerm))
         \<and> length_m m = length (normalizeNFC h searchTerm)
              + length (takeWhile sanskritEndings
                  (drop (p + length (normalizeNFC h searchTerm)) (normalizeNFC h tx)))
         \<and> matchedText m = take (length_m m) (drop p (normalizeNFC h tx))))
   \<and> (\<forall>h this searchTerm tx ms m.
      directSearch h this searchTerm tx = Some ms \<longrightarrow> m \<in> set ms \<longrightarrow>
      type_m m = direct \<and>
      (\<exists>p. position m = int p
         \<and> take (length (if caseSensitive (config this) then searchTerm else toLowerCase h searchTerm))
              (drop p (if caseSensitive (config this) then tx else toLowerCase h tx))
             = (if caseSensitive (config this) then searchTerm else toLowerCase h searchTerm)
         \<and> length_m m =
             (if searchTerm \<noteq> [] \<and> sanskritEndings (last searchTerm) then length searchTerm
              else length searchTerm
                     + length (takeWhile sanskritEndings (drop (p + length searchTerm) tx)))
         \<and> matchedText m = take (length_m m) (drop p tx)))
   \<and> (\<forall>h this searchTerm tx.
        searchTerm \<noteq> [] \<longrightarrow>
        (if caseSensitive (config this) then searchTerm else toLowerCase h searchTerm) \<noteq> [] \<longrightarrow>
        (\<exists>ms. directSearch h this searchTerm tx = Some ms))
   \<and> (\<forall>w. \<exists>this r. new_SanskritSearch (Window w) no_options = Inr this
        \<and> search plain_host this [0x926, 0x947, 0x935]
          [0x926, 0x947, 0x935, 0x94B, 0x93D, 0x938, 0x941, 0x930, 0x947, 0x92D, 0x94D, 0x92F, 0x94B,
           0x20, 0x92C, 0x932, 0x92E, 0x926, 0x926, 0x93E, 0x924, 0x94D] = Some r
        \<and> map (\<lambda>m. (position m, length_m m, matchedText m, type_m m)) (matches r)
             = [(0, 4, [0x926, 0x947, 0x935, 0x94B], direct)]
        \<and> count r = 1)
   \<and> (\<forall>w. \<exists>this r. new_SanskritSearch (Window w) no_options = Inr this
        \<and> \<not> sanskritEndings (last [0x930, 0x93E, 0x92E])
        \<and> search plain_host this [0x930, 0x93E, 0x92E]
             [0x930, 0x93E, 0x92E, 0x94B, 0x20, 0x930, 0x93E, 0x92E, 0x903] = Some r
        \<and> map (\<lambda>m. (position m, length_m m, matchedText m, type_m m)) (matches r)
             = [(0, 3, [0x930, 0x93E, 0x92E], exact), (5, 3, [0x930, 0x93E, 0x92E], exact)]
        \<and> sanskritEndings ([0x930, 0x93E, 0x92E, 0x94B, 0x20, 0x930, 0x93E, 0x92E, 0x903] ! 3)
        \<and> sanskritEndings ([0x930, 0x93E, 0x92E, 0x94B, 0x20, 0x930, 0x93E, 0x92E, 0x903] ! 8))"
proof -
  have lifted: "\<forall>h this searchTerm tx r m.
      search h this searchTerm tx = Some r \<longrightarrow> \<not> hasEndingMarker (normalizeNFC h searchTerm) \<longrightarrow>
      m \<in> set (matches r) \<longrightarrow> type_m m = direct \<longrightarrow>
      (\<exists>p. position m = int p
         \<and> take (length (if caseSensitive (config this) then normalizeNFC h searchTerm
                          else toLowerCase h (normalizeNFC h searchTerm)))
              (drop p (if caseSensitive (config this) then normalizeNFC h tx
                       else toLowerCase h (normalizeNFC h tx)))
             = (if caseSensitive (config this) then normalizeNFC h searchTerm
                else toLowerCase h (normalizeNFC h searchTerm))
         \<and> length_m m = length (normalizeNFC h searchTerm)
              + length (takeWhile sanskritEndings
                  (drop (p + length (normalizeNFC h searchTerm)) (normalizeNFC h tx)))
         \<and> matchedText m = take (length_m m) (drop p (normalizeNFC h tx)))"
  proof (intro allI impI)
    fix h :: host and this :: SanskritSearch and searchTerm tx :: jstring
      and r :: SearchResults and m :: SearchMatch
    assume r: "search h this searchTerm tx = Some r"
      and fuzzy: "\<not> hasEndingMarker (normalizeNFC h searchTerm)"
      and m: "m \<in> set (matches r)" "type_m m = direct"
    let ?q = "normalizeNFC h searchTerm"
    let ?t = "normalizeNFC h tx"
    from search_direct_matches [OF r fuzzy m] obtain dm where
      "directSearch h this ?q ?t = Some dm" "m \<in> set dm"
      by blast
    then have hit: "directHit ?q ?t
           (if caseSensitive (config this) then ?q else toLowerCase h ?q)
           (if caseSensitive (config this) then ?t else toLowerCase h ?t)
           (?q \<noteq> [] \<and> sanskritEndings (last ?q)) m"
      by (rule directSearch_hits)
    from fuzzy sanskritEndings_marker [of ?q] have "\<not> (?q \<noteq> [] \<and> sanskritEndings (last ?q))"
      by blast
    with hit have "directHit ?q ?t
           (if caseSensitive (config this) then ?q else toLowerCase h ?q)
           (if caseSensitive (config this) then ?t else toLowerCase h ?t) False m"
      by simp
    then obtain p where p: "position m = int p"
        "take (length (if caseSensitive (config this) then ?q else toLowerCase h ?q))
           (drop p (if caseSensitive (config this) then ?t else toLowerCase h ?t))
         = (if caseSensitive (config this) then ?q else toLowerCase h ?q)"
        "length_m m = length ?q + length (takeWhile sanskritEndings (drop (p + length ?q) ?t))"
        "matchedText m = take (length_m m) (drop p ?t)"
      unfolding directHit_def by auto
    show "\<exists>p. position m = int p
         \<and> take (length (if caseSensitive (config this) then ?q else toLowerCase h ?q))
              (drop p (if caseSensitive (config this) then ?t else toLowerCase h ?t))
             = (if caseSensitive (config this) then ?q else toLowerCase h ?q)
         \<and> length_m m = length ?q + length (takeWhile sanskritEndings (drop (p + length ?q) ?t))
         \<and> matchedText m = take (length_m m) (drop p ?t)"
      by (rule exI [of _ p]) (intro conjI p)
  qed
  have hits: "\<forall>h this searchTerm tx ms m.
      directSearch h this searchTerm tx = Some ms \<longrightarrow> m \<in> set ms \<longrightarrow>
      type_m m = direct \<and>
      (\<exists>p. position m = int p
         \<and> take (length (if caseSensitive (config this) then searchTerm else toLowerCase h searchTerm))
              (drop p (if caseSensitive (config this) then tx else toLowerCase h tx))
             = (if caseSensitive (config this) then searchTerm else toLowerCase h searchTerm)
         \<and> length_m m =
             (if searchTerm \<noteq> [] \<and> sanskritEndings (last searchTerm) then length searchTerm
              else length searchTerm
                     + length (takeWhile sanskritEndings (drop (p + length searchTerm) tx)))
         \<and> matchedText m = take (length_m m) (drop p tx))"
  proof (intro allI impI)
    fix h this searchTerm tx ms m
    assume "directSearch h this searchTerm tx = Some ms" and "m \<in> set ms"
    then have "directHit searchTerm tx
           (if caseSensitive (config this) then searchTerm else toLowerCase h searchTerm)
           (if caseSensitive (config this) then tx else toLowerCase h tx)
           (searchTerm \<noteq> [] \<and> sanskritEndings (last searchTerm)) m"
      by (rule directSearch_hits)
    then show "type_m m = direct \<and>
      (\<exists>p. position m = int p
         \<and> take (length (if caseSensitive (config this) then searchTerm else toLowerCase h searchTerm))
              (drop p (if caseSensitive (config this) then tx else toLowerCase h tx))
             = (if caseSensitive (config this) then searchTerm else toLowerCase h searchTerm)
         \<and> length_m m =
             (if searchTerm \<noteq> [] \<and> sanskritEndings (last searchTerm) then length searchTerm
              else length searchTerm
                     + length (takeWhile sanskritEndings (drop (p + length searchTerm) tx)))
         \<and> matchedText m = take (length_m m) (drop p tx))"
      unfolding directHit_def by blast
  qed
  have returns: "\<forall>h this searchTerm tx.
        searchTerm \<noteq> [] \<longrightarrow>
        (if caseSensitive (config this) then searchTerm else toLowerCase h searchTerm) \<noteq> [] \<longrightarrow>
        (\<exists>ms. directSearch h this searchTerm tx = Some ms)"
  proof (intro allI impI)
    fix h :: host and this :: SanskritSearch and searchTerm tx :: jstring
    assume "searchTerm \<noteq> []"
      and "(if caseSensitive (config this) then searchTerm else toLowerCase h searchTerm) \<noteq> []"
    then show "\<exists>ms. directSearch h this searchTerm tx = Some ms"
      by (rule directSearch_returns)
  qed
  have scenario: "\<forall>w. \<exists>this r. new_SanskritSearch (Window w) no_options = Inr this
        \<and> search plain_host this [0x926, 0x947, 0x935]
          [0x926, 0x947, 0x935, 0x94B, 0x93D, 0x938, 0x941, 0x930, 0x947, 0x92D, 0x94D, 0x92F, 0x94B,
           0x20, 0x92C, 0x932, 0x92E, 0x926, 0x926, 0x93E, 0x924, 0x94D] = Some r
        \<and> map (\<lambda>m. (position m, length_m m, matchedText m, type_m m)) (matches r)
             = [(0, 4, [0x926, 0x947, 0x935, 0x94B], direct)]
        \<and> count r = 1"
  proof
    fix w
    from search_deva [of w] show "\<exists>this r. new_SanskritSearch (Window w) no_options = Inr this
        \<and> search plain_host this [0x926, 0x947, 0x935]
          [0x926, 0x947, 0x935, 0x94B, 0x93D, 0x938, 0x941, 0x930, 0x947, 0x92D, 0x94D, 0x92F, 0x94B,
           0x20, 0x92C, 0x932, 0x92E, 0x926, 0x926, 0x93E, 0x924, 0x94D] = Some r
        \<and> map (\<lambda>m. (position m, length_m m, matchedText m, type_m m)) (matches r)
             = [(0, 4, [0x926, 0x947, 0x935, 0x94B], direct)]
        \<and> count r = 1"
      by auto
  qed
  have failing: "\<forall>w. \<exists>this r. new_SanskritSearch (Window w) no_options = Inr this
        \<and> \<not> sanskritEndings (last [0x930, 0x93E, 0x92E])
        \<and> search plain_host this [0x930, 0x93E, 0x92E]
             [0x930, 0x93E, 0x92E, 0x94B, 0x20, 0x930, 0x93E, 0x92E, 0x903] = Some r
        \<and> map (\<lambda>m. (position m, length_m m, matchedText m, type_m m)) (matches r)
             = [(0, 3, [0x930, 0x93E, 0x92E], exact), (5, 3, [0x930, 0x93E, 0x92E], exact)]
        \<and> sanskritEndings ([0x930, 0x93E, 0x92E, 0x94B, 0x20, 0x930, 0x93E, 0x92E, 0x903] ! 3)
        \<and> sanskritEndings ([0x930, 0x93E, 0x92E, 0x94B, 0x20, 0x930, 0x93E, 0x92E, 0x903] ! 8)"
  proof
    fix w
    from search_rama [of w] show "\<exists>this r. new_SanskritSearch (Window w) no_options = Inr this
        \<and> \<not> sanskritEndings (last [0x930, 0x93E, 0x92E])
        \<and> search plain_host this [0x930, 0x93E, 0x92E]
             [0x930, 0x93E, 0x92E, 0x94B, 0x20, 0x930, 0x93E, 0x92E, 0x903] = Some r
        \<and> map (\<lambda>m. (position m, length_m m, matchedText m, type_m m)) (matches r)
             = [(0, 3, [0x930, 0x93E, 0x92E], exact), (5, 3, [0x930, 0x93E, 0x92E], exact)]
        \<and> sanskritEndings ([0x930, 0x93E, 0x92E, 0x94B, 0x20, 0x930, 0x93E, 0x92E, 0x903] ! 3)
        \<and> sanskritEndings ([0x930, 0x93E, 0x92E, 0x94B, 0x20, 0x930, 0x93E, 0x92E, 0x903] ! 8)"
      by (auto simp: sanskritEndings_def)
  qed
  from lifted hits returns scenario failing show ?thesis
    by (intro conjI)
qed

text \<open>The witness: the search of the scenario itself, with the sandhi rules loaded. The
  length 4 of its match is the length of the term and of the one mark that follows.\<close>

theorem term_ending_in_ma_is_not_extended_witness:
  "\<exists>this r m. new_SanskritSearch (Window True) no_options = Inr this
     \<and> search plain_host this [0x926, 0x947, 0x935]
          [0x926, 0x947, 0x935, 0x94B, 0x93D, 0x938, 0x941, 0x930, 0x947, 0x92D, 0x94D, 0x92F, 0x94B,
           0x20, 0x92C, 0x932, 0x92E, 0x926, 0x926, 0x93E, 0x924, 0x94D] = Some r
     \<and> matches r = [m] \<and> type_m m = direct \<and> position m = 0
     \<and> length_m m = 3 + length (takeWhile sanskritEndings (drop 3
          [0x926, 0x947, 0x935, 0x94B, 0x93D, 0x938, 0x941, 0x930, 0x947, 0x92D, 0x94D, 0x92F, 0x94B,
           0x20, 0x92C, 0x932, 0x92E, 0x926, 0x926, 0x93E, 0x924, 0x94D]))
     \<and> length_m m = 4
     \<and> matchedText m = [0x926, 0x947, 0x935, 0x94B]"
proof -
  let ?S = "constructed True no_options"
  let ?q = "[0x926, 0x947, 0x935] :: jstring"
  let ?tx = "[0x926, 0x947, 0x935, 0x94B, 0x93D, 0x938, 0x941, 0x930, 0x947, 0x92D, 0x94D, 0x92F, 0x94B,
           0x20, 0x92C, 0x932, 0x92E, 0x926, 0x926, 0x93E, 0x924, 0x94D] :: jstring"
  note claim = term_ending_in_ma_is_not_extended
  from search_deva [of True] obtain r where r: "search plain_host ?S ?q ?tx = Some r"
    and shape: "map (\<lambda>m. (position m, length_m m, matchedText m, type_m m)) (matches r)
             = [(0, 4, [0x926, 0x947, 0x935, 0x94B], direct)]"
    by auto
  then obtain m where m: "matches r = [m]" "position m = 0" "type_m m = direct"
    by (auto simp: map_eq_Cons_conv)
  then have member: "m \<in> set (matches r)"
    by simp
  have fuzzy: "\<not> hasEndingMarker (normalizeNFC plain_host ?q)"
    by (simp add: hasEndingMarker_def plain_host_simps)
  from claim [THEN conjunct1, rule_format, OF r fuzzy member m(3)]
  obtain p where p: "position m = int p"
    "length_m m = length (normalizeNFC plain_host ?q)
       + length (takeWhile sanskritEndings
           (drop (p + length (normalizeNFC plain_host ?q)) (normalizeNFC plain_host ?tx)))"
    "matchedText m = take (length_m m) (drop p (normalizeNFC plain_host ?tx))"
    by (elim exE conjE)
  from p(1) m(2) have "p = 0"
    by simp
  with p(2) have len: "length_m m = 3 + length (takeWhile sanskritEndings (drop 3 ?tx))"
    by (simp add: plain_host_simps)
  then have four: "length_m m = 4"
    by (simp add: sanskritEndings_def)
  with p(3) \<open>p = 0\<close> have "matchedText m = [0x926, 0x947, 0x935, 0x94B]"
    by (simp add: plain_host_simps)
  moreover have "new_SanskritSearch (Window True) no_options = Inr ?S"
    by simp
  ultimately show ?thesis
    using r m len four by blast
qed


subsection \<open>Exact word search\<close>

lemma variantAt_Some:
  assumes "variantAt tx v j = Some t"
  shows "take (length v) (drop j tx) = v" and "j + length v + t \<le> length tx"
    and "t = 0 \<or> (t = 1 \<and> boundaryChar (tx ! (j + length v)))"
proof -
  from assms have j: "j \<le> length tx" and v: "take (length v) (drop j tx) = v"
    and tb: "trailingBoundary tx (j + length v) = Some t"
    by (auto simp: variantAt_def split: if_splits)
  show "take (length v) (drop j tx) = v" by fact
  from arg_cong [OF v, of length] have "length v = min (length v) (length tx - j)"
    by simp
  with j have fits: "j + length v \<le> length tx"
    by simp
  from tb fits show "j + length v + t \<le> length tx"
    by (auto simp: trailingBoundary_def split: if_splits)
  from tb show "t = 0 \<or> (t = 1 \<and> boundaryChar (tx ! (j + length v)))"
    by (auto simp: trailingBoundary_def split: if_splits)
qed

lemma matchAt_Some:
  assumes "matchAt tx v i = Some (l, t)"
  shows "take (length v) (drop (i + l) tx) = v" and "i + l + length v + t \<le> length tx"
    and "t = 0 \<or> (t = 1 \<and> boundaryChar (tx ! (i + l + length v)))"
proof -
  from assms have "variantAt tx v (i + l) = Some t"
    by (auto simp: matchAt_def split: option.splits if_splits)
  from variantAt_Some [OF this]
  show "take (length v) (drop (i + l) tx) = v" and "i + l + length v + t \<le> length tx"
    and "t = 0 \<or> (t = 1 \<and> boundaryChar (tx ! (i + l + length v)))"
    by simp_all
qed

lemma matchAt_boundaries:
  assumes "matchAt tx v i = Some (l, t)" and "v \<noteq> []"
  shows "atWordBoundaries tx (i + l) (length v)"
proof -
  from assms(1) have at: "variantAt tx v (i + l) = Some t"
    and lead: "(l = 0 \<and> i = 0) \<or> (l = 1 \<and> i < length tx \<and> boundaryChar (tx ! i))
               \<or> (l = 0 \<and> i = length tx)"
    by (auto simp: matchAt_def split: option.splits if_splits)
  from variantAt_Some(1,2) [OF at] assms(2) have inside: "i + l < length tx"
    by (cases v) auto
  from at assms(2) have trail: "i + l + length v = length tx
      \<or> (i + l + length v < length tx \<and> boundaryChar (tx ! (i + l + length v)))"
    by (auto simp: variantAt_def trailingBoundary_def split: if_splits)
  from lead inside have "i + l = 0 \<or> (i + l \<le> length tx \<and> boundaryChar (tx ! (i + l - 1)))"
    by auto
  with trail show ?thesis
    unfolding atWordBoundaries_def by blast
qed

lemma execFrom_None:
  "execFrom tx v fuel i = None \<Longrightarrow> i \<le> j \<Longrightarrow> j < i + fuel \<Longrightarrow> matchAt tx v j = None"
proof (induction fuel arbitrary: i)
  case 0
  then show ?case by simp
next
  case (Suc fuel)
  from Suc.prems(1) have here: "matchAt tx v i = None" and rest: "execFrom tx v fuel (Suc i) = None"
    by (auto split: option.splits)
  show ?case
  proof (cases "j = i")
    case True
    with here show ?thesis by simp
  next
    case False
    with Suc.prems(2,3) have "Suc i \<le> j" "j < Suc i + fuel"
      by simp_all
    from Suc.IH [OF rest this] show ?thesis .
  qed
qed

text \<open>When the regular expression of a variant matches nowhere in the text, no occurrence
  of the variant is delimited by word boundaries.\<close>

lemma exec_None_no_boundary_occurrence:
  assumes none: "exec tx v 0 = None" and v: "v \<noteq> []"
  shows "\<not> occursAtWordBoundaries tx v"
proof
  assume "occursAtWordBoundaries tx v"
  then obtain p where range: "p \<in> {0 .. length tx}" and occ: "take (length v) (drop p tx) = v"
    and bd: "atWordBoundaries tx p (length v)"
    unfolding occursAtWordBoundaries_def by blast
  from range occ have p: "p \<le> length tx" "take (length v) (drop p tx) = v"
    by simp_all
  from bd have lead: "p = 0 \<or> (p \<le> length tx \<and> boundaryChar (tx ! (p - 1)))"
    and trail: "p + length v = length tx
                \<or> (p + length v < length tx \<and> boundaryChar (tx ! (p + length v)))"
    unfolding atWordBoundaries_def by blast+
  from trail v have "\<exists>t. trailingBoundary tx (p + length v) = Some t"
    by (auto simp: trailingBoundary_def)
  with p obtain t where at: "variantAt tx v p = Some t"
    by (auto simp: variantAt_def)
  have every: "matchAt tx v j = None" if "j \<le> length tx" for j
    using execFrom_None [OF none [unfolded exec_def], of j] that by simp
  show False
  proof (cases "p = 0")
    case True
    with at have "matchAt tx v 0 = Some (0, t)"
      by (simp add: matchAt_def)
    with every [of 0] show False
      by simp
  next
    case False
    with lead have b: "p - 1 < length tx" "boundaryChar (tx ! (p - 1))" "Suc (p - 1) = p"
      by auto
    with at have "matchAt tx v (p - 1) \<noteq> None"
      by (auto simp: matchAt_def split: option.splits)
    with every [of "p - 1"] b(1) show False
      by simp
  qed
qed

lemma execFrom_Some:
  "execFrom tx v fuel i = Some (j, l, t) \<Longrightarrow> matchAt tx v j = Some (l, t)"
proof (induction fuel arbitrary: i)
  case 0
  then show ?case by simp
next
  case (Suc fuel)
  then show ?case
    by (cases "matchAt tx v i") auto
qed

lemma exec_Some:
  "exec tx v lastIndex = Some (j, l, t) \<Longrightarrow> matchAt tx v j = Some (l, t)"
  unfolding exec_def by (rule execFrom_Some)

text \<open>
  The start computed from a match of the regular expression is the index of the
  variant, as long as the variant does not itself end in a boundary character.
\<close>

lemma matchStart_is_variant_index:
  assumes m: "matchAt tx v i = Some (l, t)" and v: "v \<noteq> []" "\<not> boundaryChar (last v)"
  defines "match0 \<equiv> take (l + length v + t) (drop i tx)"
  shows "int i + (int (length match0) - int (length v) - (if endsWithBoundaryChar match0 then 1 else 0))
           = int (i + l)"
proof -
  note facts = matchAt_Some [OF m]
  from facts(2) have len: "length match0 = l + length v + t"
    by (simp add: match0_def)
  have split: "match0 = take l (drop i tx) @ v @ take t (drop (i + l + length v) tx)"
  proof -
    have "take (l + (length v + t)) (drop i tx)
        = take l (drop i tx) @ take (length v + t) (drop l (drop i tx))"
      by (rule take_add)
    also have "drop l (drop i tx) = drop (i + l) tx"
      by (simp add: add.commute)
    also have "take (length v + t) (drop (i + l) tx)
        = take (length v) (drop (i + l) tx) @ take t (drop (length v) (drop (i + l) tx))"
      by (rule take_add)
    also have "drop (length v) (drop (i + l) tx) = drop (i + l + length v) tx"
      by (simp add: add.commute)
    finally show ?thesis
      using facts(1) by (simp add: match0_def add.assoc)
  qed
  have "endsWithBoundaryChar match0 \<longleftrightarrow> t = 1"
  proof (cases "t = 0")
    case True
    with split v show ?thesis
      by (simp add: endsWithBoundaryChar_def)
  next
    case False
    with facts(3) have t: "t = 1" and b: "boundaryChar (tx ! (i + l + length v))"
      by simp_all
    from facts(2) t have "i + l + length v < length tx"
      by simp
    then have "take t (drop (i + l + length v) tx) = [tx ! (i + l + length v)]"
      unfolding t by (simp add: take_Suc_conv_app_nth)
    with split b t show ?thesis
      by (simp add: endsWithBoundaryChar_def)
  qed
  with len facts(3) show ?thesis
    by auto
qed

lemma pushUnlessSamePosition_all:
  "P m \<Longrightarrow> \<forall>m' \<in> set ms. P m' \<Longrightarrow> \<forall>m' \<in> set (pushUnlessSamePosition m ms). P m'"
  by (simp add: pushUnlessSamePosition_def)

lemma wordBoundaryLoop_occurrences_step:
  assumes returns: "wordBoundaryLoop cfg0 searchTerm0 tx0 v0 lastIndex0 ms0 = Some res0"
  shows "v0 \<in> set vs \<and> v0 \<noteq> [] \<and> \<not> boundaryChar (last v0)
           \<and> (\<forall>m \<in> set ms0. variantOccurrence vs tx0 m)
         \<longrightarrow> (\<forall>m \<in> set res0. variantOccurrence vs tx0 m)"
proof (rule wordBoundaryLoop.raw_induct [where P = "\<lambda>cfg searchTerm tx v lastIndex ms res.
      v \<in> set vs \<and> v \<noteq> [] \<and> \<not> boundaryChar (last v) \<and> (\<forall>m \<in> set ms. variantOccurrence vs tx m)
      \<longrightarrow> (\<forall>m \<in> set res. variantOccurrence vs tx m)", OF _ returns], goal_cases)
  case (1 loop cfg searchTerm tx v lastIndex ms res)
  note IH = 1(1) and unfolded = 1(2)
  show ?case
  proof (intro impI, elim conjE)
    assume v: "v \<in> set vs" "v \<noteq> []" "\<not> boundaryChar (last v)"
      and ms: "\<forall>m \<in> set ms. variantOccurrence vs tx m"
    show "\<forall>m \<in> set res. variantOccurrence vs tx m"
    proof (cases "exec tx v lastIndex")
      case None
      with unfolded ms show ?thesis by simp
    next
      case (Some found)
      then obtain index l t where found: "exec tx v lastIndex = Some (index, l, t)"
        by (cases found) auto
      let ?match0 = "take (l + length v + t) (drop index tx)"
      let ?start = "int index + (int (length ?match0) - int (length v)
                      - (if endsWithBoundaryChar ?match0 then 1 else 0))"
      let ?m = "exactMatch cfg searchTerm tx v ?start (length v) v"
      from exec_Some [OF found] have at: "matchAt tx v index = Some (l, t)" .
      from matchStart_is_variant_index [OF at v(2,3)] have start: "?start = int (index + l)" .
      from matchAt_Some(1) [OF at] have "take (length v) (drop (index + l) tx) = v" .
      with v(1) matchAt_boundaries [OF at v(2)] have "variantOccurrence vs tx ?m"
        unfolding start by (simp add: variantOccurrence_def exactMatch_def nat_int_add)
      with ms have all: "\<forall>m \<in> set (pushUnlessSamePosition ?m ms). variantOccurrence vs tx m"
        by (intro pushUnlessSamePosition_all)
      from unfolded found
      have "loop cfg searchTerm tx v (index + length ?match0) (pushUnlessSamePosition ?m ms) = Some res"
        by (simp add: Let_def)
      from IH [OF this] v all show ?thesis
        by blast
    qed
  qed
qed

lemma substringLoop_occurrences_step:
  assumes returns: "substringLoop cfg0 searchTerm0 tx0 v0 index0 ms0 = Some res0"
  shows "v0 \<in> set vs \<and> exec tx0 v0 0 = None \<and> (\<forall>m \<in> set ms0. variantOccurrence vs tx0 m)
         \<longrightarrow> (\<forall>m \<in> set res0. variantOccurrence vs tx0 m)"
proof (rule substringLoop.raw_induct [where P = "\<lambda>cfg searchTerm tx v index ms res.
      v \<in> set vs \<and> exec tx v 0 = None \<and> (\<forall>m \<in> set ms. variantOccurrence vs tx m)
      \<longrightarrow> (\<forall>m \<in> set res. variantOccurrence vs tx m)", OF _ returns], goal_cases)
  case (1 loop cfg searchTerm tx v index ms res)
  note IH = 1(1) and unfolded = 1(2)
  show ?case
  proof (intro impI, elim conjE)
    assume v: "v \<in> set vs" and none: "exec tx v 0 = None"
      and ms: "\<forall>m \<in> set ms. variantOccurrence vs tx m"
    show "\<forall>m \<in> set res. variantOccurrence vs tx m"
    proof (cases "indexOf tx v index")
      case None
      with unfolded ms show ?thesis by simp
    next
      case (Some index')
      let ?m = "exactMatch cfg searchTerm tx v (int index') (length v) v"
      from indexOf_Some(3) [OF Some] v none have "variantOccurrence vs tx ?m"
        by (simp add: variantOccurrence_def exactMatch_def)
      with ms have all: "\<forall>m \<in> set (pushUnlessSamePosition ?m ms). variantOccurrence vs tx m"
        by (intro pushUnlessSamePosition_all)
      from unfolded Some
      have "loop cfg searchTerm tx v (index' + length v) (pushUnlessSamePosition ?m ms) = Some res"
        by simp
      from IH [OF this] v none all show ?thesis
        by blast
    qed
  qed
qed

text \<open>The loop of the regular expression only adds matches; when it leaves none, the
  regular expression has matched nowhere.\<close>

lemma wordBoundaryLoop_keeps_step:
  assumes returns: "wordBoundaryLoop cfg0 searchTerm0 tx0 v0 lastIndex0 ms0 = Some res0"
  shows "ms0 \<noteq> [] \<longrightarrow> res0 \<noteq> []"
proof (rule wordBoundaryLoop.raw_induct [where P = "\<lambda>cfg searchTerm tx v lastIndex ms res.
      ms \<noteq> [] \<longrightarrow> res \<noteq> []", OF _ returns], goal_cases)
  case (1 loop cfg searchTerm tx v lastIndex ms res)
  note IH = 1(1) and unfolded = 1(2)
  show ?case
  proof (cases "exec tx v lastIndex")
    case None
    with unfolded show ?thesis by simp
  next
    case (Some found)
    then obtain index l t where found: "exec tx v lastIndex = Some (index, l, t)"
      by (cases found) auto
    from unfolded found obtain m where
      "loop cfg searchTerm tx v (index + length (take (l + length v + t) (drop index tx)))
         (pushUnlessSamePosition m ms) = Some res"
      by (simp add: Let_def)
    from IH [OF this] show ?thesis
      by (auto simp: pushUnlessSamePosition_def split: if_splits)
  qed
qed

lemma wordBoundaryLoop_empty:
  assumes "wordBoundaryLoop cfg searchTerm tx v 0 ms = Some []"
  shows "exec tx v 0 = None"
proof (cases "exec tx v 0")
  case None
  then show ?thesis .
next
  case (Some found)
  then obtain index l t where found: "exec tx v 0 = Some (index, l, t)"
    by (cases found) auto
  from assms found obtain m where
    "wordBoundaryLoop cfg searchTerm tx v (index + length (take (l + length v + t) (drop index tx)))
       (pushUnlessSamePosition m ms) = Some []"
    by (subst (asm) wordBoundaryLoop.simps) (simp add: Let_def)
  from wordBoundaryLoop_keeps_step [OF this] have "pushUnlessSamePosition m ms = []"
    by blast
  then show ?thesis
    by (simp add: pushUnlessSamePosition_def split: if_splits)
qed

lemma searchVariant_occurrences:
  assumes "searchVariant cfg searchTerm tx ms v = Some res"
    and "v \<in> set vs" "v \<noteq> []" "\<not> boundaryChar (last v)"
    and "\<forall>m \<in> set ms. variantOccurrence vs tx m"
  shows "\<forall>m \<in> set res. variantOccurrence vs tx m"
proof -
  from assms(1) obtain ms' where wb: "wordBoundaryLoop cfg searchTerm tx v 0 ms = Some ms'"
    and rest: "(if ms' = [] then substringLoop cfg searchTerm tx v 0 ms' else Some ms') = Some res"
    by (auto simp: searchVariant_def split: option.splits)
  from wordBoundaryLoop_occurrences_step [OF wb, of vs] assms(2-5)
  have ms': "\<forall>m \<in> set ms'. variantOccurrence vs tx m"
    by blast
  show ?thesis
  proof (cases "ms' = []")
    case True
    with rest have "substringLoop cfg searchTerm tx v 0 ms' = Some res" by simp
    moreover from wb True have "exec tx v 0 = None"
      by (intro wordBoundaryLoop_empty [of cfg searchTerm tx v ms]) simp
    ultimately show ?thesis
      using substringLoop_occurrences_step [of cfg searchTerm tx v 0 ms' res vs] assms(2) ms'
      by blast
  next
    case False
    with rest ms' show ?thesis by simp
  qed
qed

lemma forEachVariant_occurrences:
  assumes "forEachVariant cfg searchTerm tx ms ws = Some res"
    and "set ws \<subseteq> set vs" and "\<forall>v \<in> set ws. v \<noteq> [] \<and> \<not> boundaryChar (last v)"
    and "\<forall>m \<in> set ms. variantOccurrence vs tx m"
  shows "\<forall>m \<in> set res. variantOccurrence vs tx m"
  using assms
proof (induction ws arbitrary: ms)
  case Nil
  then show ?case by simp
next
  case (Cons v ws)
  from Cons.prems(1) obtain ms' where first: "searchVariant cfg searchTerm tx ms v = Some ms'"
    and rest: "forEachVariant cfg searchTerm tx ms' ws = Some res"
    by (auto split: option.splits)
  from Cons.prems(2,3) have v: "v \<in> set vs" "v \<noteq> []" "\<not> boundaryChar (last v)"
    by simp_all
  from searchVariant_occurrences [OF first v Cons.prems(4)]
  have "\<forall>m \<in> set ms'. variantOccurrence vs tx m" .
  with Cons.IH [OF rest] Cons.prems(2,3) show ?case
    by simp
qed


lemma replaceAll_last:
  "s \<noteq> [] \<Longrightarrow> r \<noteq> [] \<Longrightarrow>
     replaceAll p r s \<noteq> [] \<and> (last (replaceAll p r s) = last s \<or> last (replaceAll p r s) = last r)"
proof (induction p r s rule: replaceAll.induct)
  case (1 p r)
  then show ?case by simp
next
  case (2 p r x xs)
  show ?case
  proof (cases "p \<noteq> [] \<and> take (length p) (x # xs) = p")
    case True
    then have eq: "replaceAll p r (x # xs) = r @ replaceAll p r (drop (length p) (x # xs))"
      by (subst replaceAll.simps) (simp del: replaceAll.simps)
    show ?thesis
    proof (cases "drop (length p) (x # xs) = []")
      case empty: True
      then have "replaceAll p r (x # xs) = r"
        unfolding eq by simp
      with 2(4) show ?thesis by simp
    next
      case False
      from 2(1) [OF True False 2(4)]
      have "replaceAll p r (drop (length p) (x # xs)) \<noteq> []"
        and "last (replaceAll p r (drop (length p) (x # xs))) = last (drop (length p) (x # xs))
             \<or> last (replaceAll p r (drop (length p) (x # xs))) = last r"
        by simp_all
      moreover from False have "last (drop (length p) (x # xs)) = last (x # xs)"
        by (intro last_drop) simp
      ultimately show ?thesis
        unfolding eq by auto
    qed
  next
    case False
    then have eq: "replaceAll p r (x # xs) = x # replaceAll p r xs"
      by (subst replaceAll.simps) (auto simp del: replaceAll.simps)
    show ?thesis
    proof (cases "xs = []")
      case True
      then show ?thesis unfolding eq by simp
    next
      case nonempty: False
      from 2(2) [OF False nonempty 2(4)] nonempty show ?thesis
        unfolding eq by auto
    qed
  qed
qed

lemma replace_last:
  assumes "s \<noteq> []" and "r \<noteq> []"
  shows "replace pat r s \<noteq> [] \<and> (last (replace pat r s) = last s \<or> last (replace pat r s) = last r)"
proof (cases pat)
  case (Everywhere p)
  with replaceAll_last [OF assms] show ?thesis by simp
next
  case (AtEnd p)
  with assms show ?thesis by simp
qed

lemma set_unique: "set (unique seen xs) \<subseteq> set xs"
  by (induction xs arbitrary: seen) auto

text \<open>The last code units of the replacements: anusvara and virama of the eight scripts, and
  visarga.\<close>

lemma phoneticSteps_replacements:
  "\<forall>(inc, pat, rep) \<in> set phoneticSteps. rep \<noteq> [] \<and>
     last rep \<in> {0x902, 0x94D, 0xC82, 0xCCD, 0xB82, 0xBCD, 0xC02, 0xC4D, 0xD02, 0xD4D,
                  0x982, 0x9CD, 0xA82, 0xACD, 0xB02, 0xB4D, 0x903}"
  by (simp add: phoneticSteps_def)

lemma variant_last:
  assumes "v \<in> set (generatePhoneticVariants searchTerm)" and "searchTerm \<noteq> []"
  shows "v \<noteq> [] \<and> (last v = last searchTerm \<or>
     last v \<in> {0x902, 0x94D, 0xC82, 0xCCD, 0xB82, 0xBCD, 0xC02, 0xC4D, 0xD02, 0xD4D,
                0x982, 0x9CD, 0xA82, 0xACD, 0xB02, 0xB4D, 0x903})"
proof -
  from assms(1) set_unique
  have "v = searchTerm \<or> (\<exists>(inc, pat, rep) \<in> set phoneticSteps. v = replace pat rep searchTerm)"
    unfolding generatePhoneticVariants_def by (fastforce split: if_splits)
  then show ?thesis
  proof
    assume "v = searchTerm"
    with assms(2) show ?thesis by simp
  next
    assume "\<exists>(inc, pat, rep) \<in> set phoneticSteps. v = replace pat rep searchTerm"
    then obtain inc pat rep where step: "(inc, pat, rep) \<in> set phoneticSteps"
      and v: "v = replace pat rep searchTerm"
      by auto
    from step phoneticSteps_replacements have rep: "rep \<noteq> []"
      "last rep \<in> {0x902, 0x94D, 0xC82, 0xCCD, 0xB82, 0xBCD, 0xC02, 0xC4D, 0xD02, 0xD4D,
                  0x982, 0x9CD, 0xA82, 0xACD, 0xB02, 0xB4D, 0x903}"
      by blast+
    from replace_last [OF assms(2) rep(1), of pat] rep(2) show ?thesis
      unfolding v by auto
  qed
qed

lemma markers_not_boundary:
  "\<forall>c \<in> {0x902, 0x903, 0x901, 0x93E, 0x93F, 0x940, 0x941, 0x942, 0x947, 0x948, 0x94B, 0x94C, 0x943, 0x944, 0x962, 0x963, 0x94D, 0x1CF5, 0x1CF6, 0x92E, 0x94D, 0xC82, 0xC83, 0xCBE, 0xCBF, 0xCC0, 0xCC1, 0xCC2, 0xCC3, 0xCC4, 0xCC6, 0xCC7, 0xCC8, 0xCCA, 0xCCB, 0xCCC, 0xCCD, 0xCAE, 0xCCD, 0xB82, 0xB83, 0xBBE, 0xBBF, 0xBC0, 0xBC1, 0xBC2, 0xBC6, 0xBC7, 0xBC8, 0xBCA, 0xBCB, 0xBCC, 0xBCD, 0xBAE, 0xBCD, 0xC02, 0xC03, 0xC3E, 0xC3F, 0xC40, 0xC41, 0xC42, 0xC43, 0xC44, 0xC46, 0xC47, 0xC48, 0xC4A, 0xC4B, 0xC4C, 0xC4D, 0xC2E, 0xC4D, 0xD02, 0xD03, 0xD3E, 0xD3F, 0xD40, 0xD41, 0xD42, 0xD43, 0xD46, 0xD47, 0xD48, 0xD4A, 0xD4B, 0xD4C, 0xD4D, 0xD2E, 0xD4D, 0x982, 0x983, 0x9BE, 0x9BF, 0x9C0, 0x9C1, 0x9C2, 0x9C3, 0x9C7, 0x9C8, 0x9CB, 0x9CC, 0x9CD, 0x9AE, 0x9CD, 0xA82, 0xA83, 0xABE, 0xABF, 0xAC0, 0xAC1, 0xAC2, 0xAC3, 0xAC7, 0xAC8, 0xACB, 0xACC, 0xACD, 0xAAE, 0xACD, 0xB02, 0xB03, 0xB3E, 0xB3F, 0xB40, 0xB41, 0xB42, 0xB43, 0xB47, 0xB48, 0xB4B, 0xB4C, 0xB4D, 0xB2E, 0xB4D}.
     \<not> boundaryChar c"
  by (simp add: boundaryChar_def WhiteSpace_def)

lemma marker_not_boundary:
  assumes "hasEndingMarker searchTerm"
  shows "\<not> boundaryChar (last searchTerm)"
  using assms unfolding hasEndingMarker_def
  by (intro markers_not_boundary [rule_format]) simp

lemma replacements_not_boundary:
  "\<forall>c \<in> {0x902, 0x94D, 0xC82, 0xCCD, 0xB82, 0xBCD, 0xC02, 0xC4D, 0xD02, 0xD4D,
         0x982, 0x9CD, 0xA82, 0xACD, 0xB02, 0xB4D, 0x903 :: nat}. \<not> boundaryChar c"
  by (simp add: boundaryChar_def WhiteSpace_def)

lemma variants_well_formed:
  assumes "hasEndingMarker searchTerm" and "v \<in> set (generatePhoneticVariants searchTerm)"
  shows "v \<noteq> [] \<and> \<not> boundaryChar (last v)"
proof -
  from assms(1) have "searchTerm \<noteq> []"
    by (simp add: hasEndingMarker_def)
  from variant_last [OF assms(2) this]
  have v: "v \<noteq> []" and lastv: "last v = last searchTerm \<or>
     last v \<in> {0x902, 0x94D, 0xC82, 0xCCD, 0xB82, 0xBCD, 0xC02, 0xC4D, 0xD02, 0xD4D,
                0x982, 0x9CD, 0xA82, 0xACD, 0xB02, 0xB4D, 0x903}"
    by blast+
  from lastv have "\<not> boundaryChar (last v)"
  proof
    assume "last v = last searchTerm"
    with marker_not_boundary [OF assms(1)] show ?thesis by simp
  next
    assume "last v \<in> {0x902, 0x94D, 0xC82, 0xCCD, 0xB82, 0xBCD, 0xC02, 0xC4D, 0xD02, 0xD4D,
                0x982, 0x9CD, 0xA82, 0xACD, 0xB02, 0xB4D, 0x903}"
    with replacements_not_boundary show ?thesis by (rule bspec)
  qed
  with v show ?thesis
    by simp
qed

lemma exactWordSearch_occurrences:
  assumes "exactWordSearch h this searchTerm tx = Some r" and "m \<in> set (matches r)"
    and "hasEndingMarker (normalizeNFC h searchTerm)"
  shows "variantOccurrence (generatePhoneticVariants (normalizeNFC h searchTerm)) (normalizeNFC h tx) m"
proof (cases "searchTerm = [] \<or> tx = []")
  case True
  with assms(1,2) show ?thesis
    by (auto simp: exactWordSearch_def emptyResults_def)
next
  case False
  let ?vs = "generatePhoneticVariants (normalizeNFC h searchTerm)"
  from False assms(1) obtain ms where
    ms: "forEachVariant (config this) (normalizeNFC h searchTerm) (normalizeNFC h tx) [] ?vs = Some ms"
    and r: "matches r = sortByPosition ms"
    by (auto simp: exactWordSearch_def Let_def split: option.splits)
  have "\<forall>v \<in> set ?vs. v \<noteq> [] \<and> \<not> boundaryChar (last v)"
    using variants_well_formed [OF assms(3)] by blast
  with forEachVariant_occurrences [OF ms, of ?vs]
  have "\<forall>m \<in> set ms. variantOccurrence ?vs (normalizeNFC h tx) m"
    by simp
  with assms(2) r show ?thesis
    by (simp add: sortByPosition_def)
qed


lemma execFrom_from:
  "execFrom tx v fuel i = Some (j, l, t) \<Longrightarrow> i \<le> j"
proof (induction fuel arbitrary: i)
  case 0
  then show ?case by simp
next
  case (Suc fuel)
  show ?case
  proof (cases "matchAt tx v i")
    case None
    with Suc.prems have "execFrom tx v fuel (Suc i) = Some (j, l, t)" by simp
    from Suc.IH [OF this] show ?thesis by simp
  next
    case (Some found)
    with Suc.prems show ?thesis by (cases found) simp
  qed
qed

lemma wordBoundaryLoop_returns:
  assumes "v \<noteq> []"
  shows "\<exists>res. wordBoundaryLoop cfg searchTerm tx v lastIndex ms = Some res"
proof (induction "length tx + 1 - lastIndex" arbitrary: lastIndex ms rule: less_induct)
  case less
  show ?case
  proof (cases "exec tx v lastIndex")
    case None
    then show ?thesis
      by (subst wordBoundaryLoop.simps) simp
  next
    case (Some found)
    then obtain index l t where found: "exec tx v lastIndex = Some (index, l, t)"
      by (cases found) auto
    let ?match0 = "take (l + length v + t) (drop index tx)"
    from found have "lastIndex \<le> index"
      unfolding exec_def by (rule execFrom_from)
    moreover from matchAt_Some(2) [OF exec_Some [OF found]]
    have fits: "index + l + length v + t \<le> length tx" .
    then have "length ?match0 = l + length v + t"
      by simp
    moreover from assms have "0 < length v"
      by simp
    ultimately have "length tx + 1 - (index + length ?match0) < length tx + 1 - lastIndex"
      using fits by linarith
    from less [OF this] found show ?thesis
      by (subst wordBoundaryLoop.simps) (simp add: Let_def)
  qed
qed

lemma substringLoop_returns:
  assumes "v \<noteq> []"
  shows "\<exists>res. substringLoop cfg searchTerm tx v index ms = Some res"
proof (induction "length tx - index" arbitrary: index ms rule: less_induct)
  case less
  show ?case
  proof (cases "indexOf tx v index")
    case None
    then show ?thesis
      by (subst substringLoop.simps) simp
  next
    case (Some p)
    from indexOf_Some_nonempty [OF Some assms] have "index \<le> p" "p < length tx"
      by simp_all
    with assms have "length tx - (p + length v) < length tx - index"
      by (cases v) simp_all
    from less [OF this] Some show ?thesis
      by (subst substringLoop.simps) simp
  qed
qed

lemma searchVariant_returns:
  assumes "v \<noteq> []"
  shows "\<exists>res. searchVariant cfg searchTerm tx ms v = Some res"
proof -
  from wordBoundaryLoop_returns [OF assms]
  obtain ms' where "wordBoundaryLoop cfg searchTerm tx v 0 ms = Some ms'"
    by blast
  moreover from substringLoop_returns [OF assms]
  obtain res where "substringLoop cfg searchTerm tx v 0 ms' = Some res"
    by blast
  ultimately show ?thesis
    by (auto simp: searchVariant_def)
qed

lemma forEachVariant_returns:
  assumes "\<forall>v \<in> set ws. v \<noteq> []"
  shows "\<exists>res. forEachVariant cfg searchTerm tx ms ws = Some res"
  using assms
proof (induction ws arbitrary: ms)
  case Nil
  show ?case by simp
next
  case (Cons v ws)
  then have "v \<noteq> []" by simp
  from searchVariant_returns [OF this]
  obtain ms' where "searchVariant cfg searchTerm tx ms v = Some ms'"
    by blast
  moreover from Cons obtain res where "forEachVariant cfg searchTerm tx ms' ws = Some res"
    by fastforce
  ultimately show ?case
    by simp
qed

lemma exactWordSearch_returns:
  assumes "hasEndingMarker (normalizeNFC h searchTerm)"
  shows "\<exists>r. exactWordSearch h this searchTerm tx = Some r"
proof -
  have "\<forall>v \<in> set (generatePhoneticVariants (normalizeNFC h searchTerm)). v \<noteq> []"
    using variants_well_formed [OF assms] by blast
  from forEachVariant_returns [OF this]
  obtain ms where "forEachVariant (config this) (normalizeNFC h searchTerm) (normalizeNFC h tx) []
      (generatePhoneticVariants (normalizeNFC h searchTerm)) = Some ms"
    by blast
  then show ?thesis
    by (simp add: exactWordSearch_def Let_def)
qed


lemma search_akampa:
  "\<exists>m. search plain_host (constructed w no_options) [0x915, 0x902] [0x905, 0x915, 0x902, 0x92A]
        = Some \<lparr> matches = [m], count = 1, searchTerm_r = Some [0x915, 0x902] \<rparr>
      \<and> position m = 1 \<and> length_m m = 2 \<and> matchedText m = [0x915, 0x902] \<and> type_m m = exact"
proof -
  let ?S = "constructed w no_options"
  let ?tx = "[0x905, 0x915, 0x902, 0x92A] :: jstring"
  have first: "map_option (map (\<lambda>m. (position m, length_m m, matchedText m, type_m m)))
        (searchVariant (config ?S) [0x915, 0x902] ?tx [] [0x915, 0x902])
      = Some [(1, 2, [0x915, 0x902], exact)]"
    by (simp add: searchVariant_def loop_eval exec_eval)
  then obtain ms where ms: "searchVariant (config ?S) [0x915, 0x902] ?tx [] [0x915, 0x902] = Some ms"
      "map (\<lambda>m. (position m, length_m m, matchedText m, type_m m)) ms = [(1, 2, [0x915, 0x902], exact)]"
    by auto
  then obtain m where m: "ms = [m]" "position m = 1" "length_m m = 2"
      "matchedText m = [0x915, 0x902]" "type_m m = exact"
    by (auto simp: map_eq_Cons_conv)
  have second: "searchVariant (config ?S) [0x915, 0x902] ?tx [m] [0x915, 0x92E, 0x94D] = Some [m]"
    by (simp add: searchVariant_def loop_eval exec_eval)
  have "search plain_host ?S [0x915, 0x902] ?tx
      = Some \<lparr> matches = [m], count = 1, searchTerm_r = Some [0x915, 0x902] \<rparr>"
    using ms(1) second
    by (simp add: search_def exactWordSearch_def plain_host_simps marker_ka_anusvara
          variants_ka_anusvara m(1) sortByPosition_def)
  with m show ?thesis
    by blast
qed

lemma search_kam_akampa:
  "\<exists>m. search plain_host (constructed w no_options) [0x915, 0x902]
          [0x915, 0x902, 0x20, 0x905, 0x915, 0x902, 0x92A]
        = Some \<lparr> matches = [m], count = 1, searchTerm_r = Some [0x915, 0x902] \<rparr>
      \<and> position m = 0 \<and> length_m m = 2 \<and> matchedText m = [0x915, 0x902] \<and> type_m m = exact"
proof -
  let ?S = "constructed w no_options"
  let ?tx = "[0x915, 0x902, 0x20, 0x905, 0x915, 0x902, 0x92A] :: jstring"
  have first: "map_option (map (\<lambda>m. (position m, length_m m, matchedText m, type_m m)))
        (searchVariant (config ?S) [0x915, 0x902] ?tx [] [0x915, 0x902])
      = Some [(0, 2, [0x915, 0x902], exact)]"
    by (simp add: searchVariant_def loop_eval exec_eval)
  then obtain ms where ms: "searchVariant (config ?S) [0x915, 0x902] ?tx [] [0x915, 0x902] = Some ms"
      "map (\<lambda>m. (position m, length_m m, matchedText m, type_m m)) ms = [(0, 2, [0x915, 0x902], exact)]"
    by auto
  then obtain m where m: "ms = [m]" "position m = 0" "length_m m = 2"
      "matchedText m = [0x915, 0x902]" "type_m m = exact"
    by (auto simp: map_eq_Cons_conv)
  have second: "searchVariant (config ?S) [0x915, 0x902] ?tx [m] [0x915, 0x92E, 0x94D] = Some [m]"
    by (simp add: searchVariant_def loop_eval exec_eval)
  have "search plain_host ?S [0x915, 0x902] ?tx
      = Some \<lparr> matches = [m], count = 1, searchTerm_r = Some [0x915, 0x902] \<rparr>"
    using ms(1) second
    by (simp add: search_def exactWordSearch_def plain_host_simps marker_ka_anusvara
          variants_ka_anusvara m(1) sortByPosition_def)
  with m show ?thesis
    by blast
qed

text \<open>
  Claim C6, as the code has it. In precision mode, on a term and a text in normal form C,
  the search returns, and every match is of type \<open>exact\<close>, its text is one of the
  phonetic variants of the term, and the text holds this variant at the position of the
  match, over the length of the match. The match is delimited by word boundaries (the
  start or the end of the text, or a character of the boundary class, on either side),
  unless the text has no occurrence of this variant that is delimited by word
  boundaries: only then is the variant looked up as a plain substring. When the term
  ends in anusvara or candrabindu, no match ends in a vowel sign.
\<close>

theorem precision_mode_matches_delimited_unless_none_is:
  assumes "hasEndingMarker searchTerm"
    and "normalizeNFC h searchTerm = searchTerm" and "normalizeNFC h tx = tx"
  shows "\<exists>r. search h this searchTerm tx = Some r \<and>
     (\<forall>m \<in> set (matches r).
        type_m m = exact
      \<and> matchedText m \<in> set (generatePhoneticVariants searchTerm)
      \<and> length_m m = length (matchedText m)
      \<and> 0 \<le> position m
      \<and> take (length_m m) (drop (nat (position m)) tx) = matchedText m
      \<and> (atWordBoundaries tx (nat (position m)) (length_m m)
           \<or> \<not> occursAtWordBoundaries tx (matchedText m))
      \<and> (last searchTerm \<in> {0x901, 0x902} \<longrightarrow> \<not> endsWithVowelMark (matchedText m)))"
proof (cases "tx = []")
  case True
  then show ?thesis
    by (simp add: search_def emptyResults_def)
next
  case False
  from assms(1) have nonempty: "searchTerm \<noteq> []"
    by (simp add: hasEndingMarker_def)
  with False assms have precise: "search h this searchTerm tx = exactWordSearch h this searchTerm tx"
    by (simp add: search_def Let_def)
  from exactWordSearch_returns [of h searchTerm this tx] assms(1,2)
  obtain r where r: "exactWordSearch h this searchTerm tx = Some r"
    by auto
  have each: "type_m m = exact
      \<and> matchedText m \<in> set (generatePhoneticVariants searchTerm)
      \<and> length_m m = length (matchedText m)
      \<and> 0 \<le> position m
      \<and> take (length_m m) (drop (nat (position m)) tx) = matchedText m
      \<and> (atWordBoundaries tx (nat (position m)) (length_m m)
           \<or> \<not> occursAtWordBoundaries tx (matchedText m))
      \<and> (last searchTerm \<in> {0x901, 0x902} \<longrightarrow> \<not> endsWithVowelMark (matchedText m))"
    if m: "m \<in> set (matches r)" for m
  proof -
    from exactWordSearch_occurrences [OF r m] assms(1,2,3)
    have occ: "variantOccurrence (generatePhoneticVariants searchTerm) tx m"
      by simp
    then have v: "matchedText m \<in> set (generatePhoneticVariants searchTerm)"
      by (simp add: variantOccurrence_def)
    from variants_well_formed [OF assms(1) v] have "matchedText m \<noteq> []"
      by simp
    moreover from occ [unfolded variantOccurrence_def]
    have "atWordBoundaries tx (nat (position m)) (length_m m) \<or> exec tx (matchedText m) 0 = None"
      by (elim conjE)
    ultimately have delimited: "atWordBoundaries tx (nat (position m)) (length_m m)
        \<or> \<not> occursAtWordBoundaries tx (matchedText m)"
      using exec_None_no_boundary_occurrence [of tx "matchedText m"] by blast
    have nasal_case: "\<not> endsWithVowelMark (matchedText m)" if nasal: "last searchTerm \<in> {0x901, 0x902}"
    proof -
      from variant_last [OF v nonempty]
      have "last (matchedText m) = last searchTerm \<or>
         last (matchedText m) \<in> {0x902, 0x94D, 0xC82, 0xCCD, 0xB82, 0xBCD, 0xC02, 0xC4D, 0xD02, 0xD4D,
                  0x982, 0x9CD, 0xA82, 0xACD, 0xB02, 0xB4D, 0x903}"
        by blast
      with nasal have "last (matchedText m) \<in> {0x901, 0x902, 0x94D, 0xC82, 0xCCD, 0xB82, 0xBCD, 0xC02,
                  0xC4D, 0xD02, 0xD4D, 0x982, 0x9CD, 0xA82, 0xACD, 0xB02, 0xB4D, 0x903}"
        by auto
      moreover have "\<forall>c \<in> {0x901, 0x902, 0x94D, 0xC82, 0xCCD, 0xB82, 0xBCD, 0xC02,
                  0xC4D, 0xD02, 0xD4D, 0x982, 0x9CD, 0xA82, 0xACD, 0xB02, 0xB4D, 0x903 :: nat}.
          c \<notin> {0x93E, 0x93F, 0x940, 0x941, 0x942, 0x943, 0x944, 0x962, 0x963, 0x947, 0x948, 0x94B, 0x94C}"
        by simp
      ultimately show ?thesis
        unfolding endsWithVowelMark_def by blast
    qed
    from occ have "type_m m = exact" "length_m m = length (matchedText m)" "0 \<le> position m"
        "take (length_m m) (drop (nat (position m)) tx) = matchedText m"
      unfolding variantOccurrence_def by blast+
    with v nasal_case delimited show ?thesis
      by (intro conjI impI)
  qed
  have returned: "search h this searchTerm tx = Some r"
    using precise r by simp
  have "\<forall>m \<in> set (matches r).
        type_m m = exact
      \<and> matchedText m \<in> set (generatePhoneticVariants searchTerm)
      \<and> length_m m = length (matchedText m)
      \<and> 0 \<le> position m
      \<and> take (length_m m) (drop (nat (position m)) tx) = matchedText m
      \<and> (atWordBoundaries tx (nat (position m)) (length_m m)
           \<or> \<not> occursAtWordBoundaries tx (matchedText m))
      \<and> (last searchTerm \<in> {0x901, 0x902} \<longrightarrow> \<not> endsWithVowelMark (matchedText m))"
    by (intro ballI) (rule each)
  from conjI [OF returned this] show ?thesis
    by (rule exI)
qed

text \<open>
  The witness: \<open>ka anusvara\<close> in the text \<open>ka anusvara, space, a ka anusvara pa\<close>. The word
  at the start of the text is delimited by word boundaries, so the one match is the one
  at position 0, and the occurrence inside the second word is not a match.
\<close>

theorem precision_mode_matches_delimited_unless_none_is_witness:
  "\<exists>this r m. new_SanskritSearch (Window True) no_options = Inr this
     \<and> search plain_host this [0x915, 0x902] [0x915, 0x902, 0x20, 0x905, 0x915, 0x902, 0x92A] = Some r
     \<and> matches r = [m] \<and> position m = 0 \<and> type_m m = exact
     \<and> matchedText m = [0x915, 0x902] \<and> length_m m = 2
     \<and> take (length_m m) (drop (nat (position m)) [0x915, 0x902, 0x20, 0x905, 0x915, 0x902, 0x92A])
           = matchedText m
     \<and> atWordBoundaries [0x915, 0x902, 0x20, 0x905, 0x915, 0x902, 0x92A] (nat (position m)) (length_m m)
     \<and> \<not> endsWithVowelMark (matchedText m)"
proof -
  let ?S = "constructed True no_options"
  let ?tx = "[0x915, 0x902, 0x20, 0x905, 0x915, 0x902, 0x92A] :: jstring"
  from search_kam_akampa [of True] obtain m r where
    r: "search plain_host ?S [0x915, 0x902] ?tx = Some r" and m: "matches r = [m]" "position m = 0"
      "matchedText m = [0x915, 0x902]"
    by auto
  have pre: "hasEndingMarker [0x915, 0x902]" "normalizeNFC plain_host [0x915, 0x902] = [0x915, 0x902]"
      "normalizeNFC plain_host ?tx = ?tx"
    by (simp_all add: marker_ka_anusvara plain_host_simps)
  have "occursAtWordBoundaries ?tx [0x915, 0x902]"
    unfolding occursAtWordBoundaries_def
    by (intro bexI [of _ 0]) (simp_all add: atWordBoundaries_def boundaryChar_def WhiteSpace_def)
  with precision_mode_matches_delimited_unless_none_is [OF pre, of ?S] r m
  have "type_m m = exact \<and> length_m m = 2
      \<and> take (length_m m) (drop (nat (position m)) ?tx) = matchedText m
      \<and> atWordBoundaries ?tx (nat (position m)) (length_m m)
      \<and> \<not> endsWithVowelMark (matchedText m)"
    by auto
  moreover have "new_SanskritSearch (Window True) no_options = Inr ?S"
    by simp
  ultimately show ?thesis
    using r m by blast
qed

text \<open>
  The claim as stated fails: in the search for \<open>ka anusvara\<close> in the one word
  \<open>a ka anusvara pa\<close>, the match at position 1 follows the letter \<open>a\<close> and is followed by
  the letter \<open>pa\<close>; it touches neither an end of the text nor a boundary character.
\<close>

theorem precision_mode_word_boundary_counterexample:
  "\<exists>this r m. new_SanskritSearch (Window True) no_options = Inr this
     \<and> search plain_host this [0x915, 0x902] [0x905, 0x915, 0x902, 0x92A] = Some r
     \<and> matches r = [m] \<and> position m = 1 \<and> length_m m = 2
     \<and> \<not> boundaryChar ([0x905, 0x915, 0x902, 0x92A] ! 0)
     \<and> \<not> boundaryChar ([0x905, 0x915, 0x902, 0x92A] ! 3)
     \<and> length [0x905, 0x915, 0x902, 0x92A :: nat] = 4
     \<and> \<not> atWordBoundaries [0x905, 0x915, 0x902, 0x92A] (nat (position m)) (length_m m)"
proof -
  from search_akampa [of True] obtain m where
    "search plain_host (constructed True no_options) [0x915, 0x902] [0x905, 0x915, 0x902, 0x92A]
        = Some \<lparr> matches = [m], count = 1, searchTerm_r = Some [0x915, 0x902] \<rparr>"
    "position m = 1" "length_m m = 2"
    by blast
  then show ?thesis
    by (simp add: boundaryChar_def WhiteSpace_def atWordBoundaries_def)
qed


subsection \<open>Order, duplicates and the limit\<close>

lemma sorted_sortByPosition: "sorted (map position (sortByPosition ms))"
  unfolding sortByPosition_def by (rule sorted_sort_key)

lemma sorted_limitResults:
  "sorted (map position ms) \<Longrightarrow> sorted (map position (limitResults cfg ms))"
  by (simp add: limitResults_def take_map [symmetric] sorted_wrt_take del: take_map)

lemma distinct_key_sortByPosition:
  "distinct (map key (sortByPosition ms)) = distinct (map key ms)"
  unfolding sortByPosition_def by (simp add: distinct_map)

lemma distinct_key_limitResults:
  "distinct (map key ms) \<Longrightarrow> distinct (map key (limitResults cfg ms))"
  by (simp add: limitResults_def take_map [symmetric] distinct_take del: take_map)

lemma length_limitResults:
  "0 < maxResults cfg \<Longrightarrow> int (length (limitResults cfg ms)) \<le> maxResults cfg"
  by (simp add: limitResults_def)

lemma distinct_mergeMatches:
  "distinct (map (\<lambda>m. (position m, length_m m)) ms) \<Longrightarrow>
     distinct (map (\<lambda>m. (position m, length_m m)) (mergeMatches ms extra))"
proof (induction extra arbitrary: ms)
  case Nil
  then show ?case by simp
next
  case (Cons m extra)
  have "distinct (map (\<lambda>m. (position m, length_m m)) (if isDuplicate m ms then ms else ms @ [m]))"
    using Cons.prems by (auto simp: isDuplicate_def)
  from Cons.IH [OF this] show ?case
    by simp
qed

lemma distinct_positions_pairs:
  "distinct (map position ms) \<Longrightarrow> distinct (map (\<lambda>m. (position m, length_m m)) ms)"
  by (induction ms) auto

lemma pushUnlessSamePosition_distinct:
  "distinct (map position ms) \<Longrightarrow> distinct (map position (pushUnlessSamePosition m ms))"
  by (auto simp: pushUnlessSamePosition_def)

lemma wordBoundaryLoop_distinct_step:
  assumes returns: "wordBoundaryLoop cfg0 searchTerm0 tx0 v0 lastIndex0 ms0 = Some res0"
  shows "distinct (map position ms0) \<longrightarrow> distinct (map position res0)"
proof (rule wordBoundaryLoop.raw_induct [where P = "\<lambda>cfg searchTerm tx v lastIndex ms res.
      distinct (map position ms) \<longrightarrow> distinct (map position res)", OF _ returns], goal_cases)
  case (1 loop cfg searchTerm tx v lastIndex ms res)
  note IH = 1(1) and unfolded = 1(2)
  show ?case
  proof (cases "exec tx v lastIndex")
    case None
    with unfolded show ?thesis by simp
  next
    case (Some found)
    then obtain index l t where found: "exec tx v lastIndex = Some (index, l, t)"
      by (cases found) auto
    from unfolded found obtain m where
      "loop cfg searchTerm tx v (index + length (take (l + length v + t) (drop index tx)))
         (pushUnlessSamePosition m ms) = Some res"
      by (simp add: Let_def)
    from IH [OF this] pushUnlessSamePosition_distinct [of ms m] show ?thesis
      by blast
  qed
qed

lemma substringLoop_distinct_step:
  assumes returns: "substringLoop cfg0 searchTerm0 tx0 v0 index0 ms0 = Some res0"
  shows "distinct (map position ms0) \<longrightarrow> distinct (map position res0)"
proof (rule substringLoop.raw_induct [where P = "\<lambda>cfg searchTerm tx v index ms res.
      distinct (map position ms) \<longrightarrow> distinct (map position res)", OF _ returns], goal_cases)
  case (1 loop cfg searchTerm tx v index ms res)
  note IH = 1(1) and unfolded = 1(2)
  show ?case
  proof (cases "indexOf tx v index")
    case None
    with unfolded show ?thesis by simp
  next
    case (Some index')
    from unfolded Some obtain m where
      "loop cfg searchTerm tx v (index' + length v) (pushUnlessSamePosition m ms) = Some res"
      by simp
    from IH [OF this] pushUnlessSamePosition_distinct [of ms m] show ?thesis
      by blast
  qed
qed

lemma forEachVariant_distinct:
  assumes "forEachVariant cfg searchTerm tx ms ws = Some res" and "distinct (map position ms)"
  shows "distinct (map position res)"
  using assms
proof (induction ws arbitrary: ms)
  case Nil
  then show ?case by simp
next
  case (Cons v ws)
  from Cons.prems(1) obtain ms1 ms2 where
    wb: "wordBoundaryLoop cfg searchTerm tx v 0 ms = Some ms1"
    and fb: "(if ms1 = [] then substringLoop cfg searchTerm tx v 0 ms1 else Some ms1) = Some ms2"
    and rest: "forEachVariant cfg searchTerm tx ms2 ws = Some res"
    by (auto simp: searchVariant_def split: option.splits)
  from wordBoundaryLoop_distinct_step [OF wb] Cons.prems(2) have "distinct (map position ms1)"
    by simp
  with fb substringLoop_distinct_step [of cfg searchTerm tx v 0 ms1 ms2]
  have "distinct (map position ms2)"
    by (cases "ms1 = []") simp_all
  from Cons.IH [OF rest this] show ?case .
qed

lemma exactWordSearch_sorted_distinct:
  assumes "exactWordSearch h this searchTerm tx = Some r"
  shows "sorted (map position (matches r))"
    and "distinct (map (\<lambda>m. (position m, length_m m)) (matches r))"
proof -
  show "sorted (map position (matches r))"
    using assms
    by (auto simp: exactWordSearch_def emptyResults_def Let_def sorted_sortByPosition
          split: if_splits option.splits)
  show "distinct (map (\<lambda>m. (position m, length_m m)) (matches r))"
  proof (cases "searchTerm = [] \<or> tx = []")
    case True
    with assms show ?thesis
      by (auto simp: exactWordSearch_def emptyResults_def)
  next
    case False
    with assms obtain ms where
      ms: "forEachVariant (config this) (normalizeNFC h searchTerm) (normalizeNFC h tx) []
             (generatePhoneticVariants (normalizeNFC h searchTerm)) = Some ms"
      and r: "matches r = sortByPosition ms"
      by (auto simp: exactWordSearch_def Let_def split: option.splits)
    from forEachVariant_distinct [OF ms] have "distinct (map position ms)"
      by simp
    then have "distinct (map (\<lambda>m. (position m, length_m m)) ms)"
      by (rule distinct_positions_pairs)
    then show ?thesis
      unfolding r by (simp only: distinct_key_sortByPosition)
  qed
qed

text \<open>The positions of the direct matches grow strictly, as long as the term and the
  string searched for are not empty.\<close>

lemma directSearchLoop_distinct_step:
  assumes returns: "directSearchLoop cfg0 searchTerm0 tx0 searchStr0 textStr0 mk0 pos0 ms0 = Some res0"
  shows "searchTerm0 \<noteq> [] \<and> searchStr0 \<noteq> [] \<and> distinct (map position ms0)
           \<and> (\<forall>m \<in> set ms0. position m < int pos0)
         \<longrightarrow> distinct (map position res0)"
proof (rule directSearchLoop.raw_induct [where P = "\<lambda>cfg searchTerm tx searchStr textStr mk pos ms res.
      searchTerm \<noteq> [] \<and> searchStr \<noteq> [] \<and> distinct (map position ms)
        \<and> (\<forall>m \<in> set ms. position m < int pos)
      \<longrightarrow> distinct (map position res)", OF _ returns], goal_cases)
  case (1 loop cfg searchTerm tx searchStr textStr mk pos ms res)
  note IH = 1(1) and unfolded = 1(2)
  show ?case
  proof (intro impI, elim conjE)
    assume nonempty: "searchTerm \<noteq> []" "searchStr \<noteq> []"
      and dist: "distinct (map position ms)" and below: "\<forall>m \<in> set ms. position m < int pos"
    show "distinct (map position res)"
    proof (cases "indexOf textStr searchStr pos")
      case None
      with unfolded dist show ?thesis by simp
    next
      case (Some p)
      from indexOf_Some_nonempty(1) [OF Some nonempty(2)] have "pos \<le> p" .
      let ?len = "if \<not> mk then length searchTerm
          + length (takeWhile sanskritEndings (drop (p + length searchTerm) tx)) else length searchTerm"
      define m where "m = \<lparr> position = int p, length_m = ?len,
                   matchedText = substr_int tx (int p) (int ?len),
                   context_m = getContext cfg tx (int p) ?len,
                   type_m = direct, variant = None, sandhiRule = None, originalTerm = None \<rparr>"
      have m: "position m = int p"
        by (simp add: m_def)
      from unfolded Some
      have next_call: "loop cfg searchTerm tx searchStr textStr mk (p + length searchTerm) (ms @ [m]) = Some res"
        by (simp add: Let_def m_def)
      from below \<open>pos \<le> p\<close> m have "position m \<notin> position ` set ms"
        by force
      with dist have "distinct (map position (ms @ [m]))"
        by simp
      moreover from below \<open>pos \<le> p\<close> m nonempty(1)
      have "\<forall>m' \<in> set (ms @ [m]). position m' < int (p + length searchTerm)"
        by (cases searchTerm) force+
      ultimately show ?thesis
        using IH [OF next_call] nonempty by blast
    qed
  qed
qed

lemma directSearch_distinct:
  assumes "directSearch h this searchTerm tx = Some ms" and "searchTerm \<noteq> []"
    and "(if caseSensitive (config this) then searchTerm else toLowerCase h searchTerm) \<noteq> []"
  shows "distinct (map (\<lambda>m. (position m, length_m m)) ms)"
proof -
  from assms(1) obtain mk where "directSearchLoop (config this) searchTerm tx
      (if caseSensitive (config this) then searchTerm else toLowerCase h searchTerm)
      (if caseSensitive (config this) then tx else toLowerCase h tx) mk 0 [] = Some ms"
    by (simp add: directSearch_def Let_def)
  from directSearchLoop_distinct_step [OF this] assms(2,3) have "distinct (map position ms)"
    by simp
  then show ?thesis
    by (rule distinct_positions_pairs)
qed

text \<open>
  In both modes the matches of \<open>search\<close> are sorted by position and no two of them
  have the same position and length. In fuzzy mode their number is at most a
  positive \<open>maxResults\<close>. The term, normalised, and the string searched for are taken
  not to be empty, as they are for the built-ins of a host.
\<close>

lemma search_sorted_distinct:
  assumes "search h this searchTerm tx = Some r"
    and "normalizeNFC h searchTerm \<noteq> []"
    and "(if caseSensitive (config this) then normalizeNFC h searchTerm
          else toLowerCase h (normalizeNFC h searchTerm)) \<noteq> []"
  shows "sorted (map position (matches r))"
    and "distinct (map (\<lambda>m. (position m, length_m m)) (matches r))"
    and "\<not> hasEndingMarker (normalizeNFC h searchTerm) \<Longrightarrow> 0 < maxResults (config this)
           \<Longrightarrow> int (length (matches r)) \<le> maxResults (config this)"
proof -
  let ?q = "normalizeNFC h searchTerm"
  let ?t = "normalizeNFC h tx"
  consider (empty) "searchTerm = [] \<or> tx = []"
    | (precise) "searchTerm \<noteq> []" "tx \<noteq> []" "hasEndingMarker ?q"
    | (fuzzy) "searchTerm \<noteq> []" "tx \<noteq> []" "\<not> hasEndingMarker ?q"
    by blast
  then have "sorted (map position (matches r))
      \<and> distinct (map (\<lambda>m. (position m, length_m m)) (matches r))
      \<and> (\<not> hasEndingMarker ?q \<longrightarrow> 0 < maxResults (config this)
           \<longrightarrow> int (length (matches r)) \<le> maxResults (config this))"
  proof cases
    case empty
    with assms(1) show ?thesis
      by (auto simp: search_def emptyResults_def)
  next
    case precise
    with assms(1) have "exactWordSearch h this ?q ?t = Some r"
      by (simp add: search_def Let_def)
    from exactWordSearch_sorted_distinct [OF this] precise(3) show ?thesis
      by simp
  next
    case fuzzy
    with assms(1) have "\<exists>dm sm. directSearch h this ?q ?t = Some dm
        \<and> matches r = limitResults (config this) (sortByPosition (mergeMatches dm sm))"
      by (auto simp: search_def Let_def simp del: mergeMatches.simps
            split: option.splits if_splits)
    then obtain dm sm where dm: "directSearch h this ?q ?t = Some dm"
      and r: "matches r = limitResults (config this) (sortByPosition (mergeMatches dm sm))"
      by blast
    from directSearch_distinct [OF dm assms(2,3)]
    have "distinct (map (\<lambda>m. (position m, length_m m)) (mergeMatches dm sm))"
      by (rule distinct_mergeMatches)
    then have "distinct (map (\<lambda>m. (position m, length_m m)) (sortByPosition (mergeMatches dm sm)))"
      by (simp only: distinct_key_sortByPosition)
    then have "distinct (map (\<lambda>m. (position m, length_m m)) (matches r))"
      unfolding r by (rule distinct_key_limitResults)
    moreover have "sorted (map position (matches r))"
      unfolding r by (intro sorted_limitResults sorted_sortByPosition)
    moreover have "0 < maxResults (config this) \<Longrightarrow> int (length (matches r)) \<le> maxResults (config this)"
      unfolding r by (rule length_limitResults)
    ultimately show ?thesis
      by blast
  qed
  then show "sorted (map position (matches r))"
    and "distinct (map (\<lambda>m. (position m, length_m m)) (matches r))"
    and "\<not> hasEndingMarker (normalizeNFC h searchTerm) \<Longrightarrow> 0 < maxResults (config this)
           \<Longrightarrow> int (length (matches r)) \<le> maxResults (config this)"
    by blast+
qed


subsection \<open>The index\<close>

lemma set_unique_eq: "set (unique seen xs) = set xs - set seen"
  by (induction xs arbitrary: seen) auto

lemma lookup_Nil: "lookup [] w = []"
  by (simp add: lookup_def)

lemma lookup_Cons: "lookup ((k, v) # rest) w = (if k = w then v else lookup rest w)"
  by (simp add: lookup_def)

lemma lookup_addToTerms:
  "set (lookup (addToTerms ts word d) w) = set (lookup ts w) \<union> (if w = word then {d} else {})"
proof (induction ts)
  case Nil
  show ?case by (simp add: lookup_Nil lookup_Cons)
next
  case (Cons entry ts)
  obtain k v where entry: "entry = (k, v)"
    by (cases entry)
  show ?case
  proof (cases "k = word")
    case True
    then have "addToTerms (entry # ts) word d = (k, if d \<in> set v then v else v @ [d]) # ts"
      by (simp add: entry)
    then show ?thesis
      using True by (cases "w = word") (auto simp: lookup_Cons entry)
  next
    case False
    then have "addToTerms (entry # ts) word d = (k, v) # addToTerms ts word d"
      by (simp add: entry)
    then show ?thesis
      using False Cons.IH by (cases "w = k") (simp_all add: lookup_Cons entry)
  qed
qed

lemma lookup_add_words:
  "set (lookup (foldl (\<lambda>ts word. addToTerms ts word d) ts ws) w)
     = set (lookup ts w) \<union> (if w \<in> set ws then {d} else {})"
proof (induction ws arbitrary: ts)
  case Nil
  then show ?case by simp
next
  case (Cons word ws)
  show ?case
    unfolding foldl_Cons Cons.IH lookup_addToTerms by auto
qed

lemma lookup_indexDocuments:
  "set (lookup (terms (foldl indexDocument index pairs)) w)
     = set (lookup (terms index) w)
       \<union> {d. \<exists>doc. (doc, d) \<in> set pairs \<and> w \<in> set (extractWords (doc_text doc))}"
proof (induction pairs arbitrary: index)
  case Nil
  then show ?case by simp
next
  case (Cons pair pairs)
  obtain doc d where pair: "pair = (doc, d)"
    by (cases pair)
  have "set (lookup (terms (indexDocument index (doc, d))) w)
      = set (lookup (terms index) w) \<union> (if w \<in> set (extractWords (doc_text doc)) then {d} else {})"
    by (simp add: indexDocument_def lookup_add_words)
  then show ?case
    unfolding foldl_Cons Cons.IH pair by auto
qed

text \<open>The index entry of a word holds exactly the documents whose words include it.\<close>

lemma lookup_createIndex:
  "set (lookup (terms (createIndex docs)) w)
     = {i. i < length docs \<and> w \<in> set (extractWords (doc_text (docs ! i)))}"
proof -
  have "{d. \<exists>doc. (doc, d) \<in> set (zip docs [0 ..< length docs]) \<and> w \<in> set (extractWords (doc_text doc))}
      = {i. i < length docs \<and> w \<in> set (extractWords (doc_text (docs ! i)))}"
  proof (intro set_eqI iffI; clarsimp simp: set_zip)
    fix i
    assume "i < length docs" and "w \<in> set (extractWords (doc_text (docs ! i)))"
    then show "\<exists>doc. (\<exists>j. doc = docs ! j \<and> i = [0 ..< length docs] ! j \<and> j < length docs)
        \<and> w \<in> set (extractWords (doc_text doc))"
      by (intro exI [of _ "docs ! i"] conjI exI [of _ i]) simp_all
  qed
  then show ?thesis
    unfolding createIndex_def lookup_indexDocuments by (simp add: lookup_Nil)
qed

lemma set_relevantIndices:
  "set (relevantIndices searchTerm (createIndex docs))
     = {i. i < length docs \<and> (\<exists>w \<in> set (extractWords searchTerm).
                                  w \<in> set (extractWords (doc_text (docs ! i))))}"
  unfolding relevantIndices_def set_unique_eq
  by (auto simp: lookup_createIndex)

lemma searchWithIndex_relevant:
  "searchWithIndex h this searchTerm (createIndex docs) docs
     = searchMultiple h this searchTerm
         (map (\<lambda>i. Some (docs ! i)) (relevantIndices searchTerm (createIndex docs)))"
proof -
  have "searchWithIndex h this searchTerm (createIndex docs) docs
      = searchMultiple h this searchTerm
          (map (\<lambda>idx. if idx < length docs then Some (docs ! idx) else None)
             (relevantIndices searchTerm (createIndex docs)))"
    by (simp add: searchWithIndex_def relevantIndices_def Let_def)
  also have "map (\<lambda>idx. if idx < length docs then Some (docs ! idx) else None)
          (relevantIndices searchTerm (createIndex docs))
      = map (\<lambda>i. Some (docs ! i)) (relevantIndices searchTerm (createIndex docs))"
    by (rule map_cong) (auto simp: set_relevantIndices)
  finally show ?thesis .
qed

lemma searchDocuments_all:
  assumes "\<forall>d \<in> set ds. search h this searchTerm (doc_text d) \<noteq> None"
  shows "searchDocuments h this searchTerm (map Some ds)
     = Some (Inr (map (\<lambda>d. documentResults d (the (search h this searchTerm (doc_text d)))) ds))"
  using assms by (induction ds) auto

lemma searchDocuments_returns:
  "searchDocuments h this searchTerm (map Some ds) = Some (Inr rs) \<Longrightarrow>
     \<forall>d \<in> set ds. search h this searchTerm (doc_text d) \<noteq> None"
proof (induction ds arbitrary: rs)
  case Nil
  then show ?case by simp
next
  case (Cons d ds)
  then show ?case
    by (auto split: option.splits sum.splits)
qed

lemma searchMultiple_all:
  assumes "\<forall>d \<in> set ds. search h this searchTerm (doc_text d) \<noteq> None"
  shows "searchMultiple h this searchTerm (map Some ds)
     = Some (Inr (filter (\<lambda>e. count (results e) > 0)
         (map (\<lambda>d. documentResults d (the (search h this searchTerm (doc_text d)))) ds)))"
  by (simp add: searchMultiple_def searchDocuments_all [OF assms])

lemma searchWithIndex_characterised:
  assumes "searchMultiple h this searchTerm (map Some docs) = Some (Inr whole)"
  shows "\<exists>rs. searchWithIndex h this searchTerm (createIndex docs) docs = Some (Inr rs)
          \<and> set rs \<subseteq> set whole
          \<and> (\<forall>d \<in> set docs. \<forall>r.
                search h this searchTerm (doc_text d) = Some r \<longrightarrow> count r > 0 \<longrightarrow>
                (\<exists>w \<in> set (extractWords searchTerm). w \<in> set (extractWords (doc_text d))) \<longrightarrow>
                documentResults d r \<in> set whole \<and> documentResults d r \<in> set rs)
          \<and> rs = filter (\<lambda>e. count (results e) > 0)
                 (map (\<lambda>i. documentResults (docs ! i) (the (search h this searchTerm (doc_text (docs ! i)))))
                    (relevantIndices searchTerm (createIndex docs)))
          \<and> set (relevantIndices searchTerm (createIndex docs))
               = {i. i < length docs \<and> (\<exists>w \<in> set (extractWords searchTerm).
                                            w \<in> set (extractWords (doc_text (docs ! i))))}"
proof -
  let ?entry = "\<lambda>d. documentResults d (the (search h this searchTerm (doc_text d)))"
  let ?hit = "\<lambda>e. count (results e) > 0"
  let ?rel = "map (\<lambda>i. docs ! i) (relevantIndices searchTerm (createIndex docs))"
  from assms obtain every where "searchDocuments h this searchTerm (map Some docs) = Some (Inr every)"
    by (auto simp: searchMultiple_def split: option.splits sum.splits)
  from searchDocuments_returns [OF this]
  have returns: "\<forall>d \<in> set docs. search h this searchTerm (doc_text d) \<noteq> None" .
  with assms have whole: "whole = filter ?hit (map ?entry docs)"
    by (simp add: searchMultiple_all)
  have rel: "set ?rel = {d. \<exists>i. i < length docs \<and> d = docs ! i
      \<and> (\<exists>w \<in> set (extractWords searchTerm). w \<in> set (extractWords (doc_text (docs ! i))))}"
    by (auto simp: set_relevantIndices)
  then have sub: "set ?rel \<subseteq> set docs"
    by auto
  with returns have "\<forall>d \<in> set ?rel. search h this searchTerm (doc_text d) \<noteq> None"
    by blast
  from searchMultiple_all [OF this]
  have indexed: "searchWithIndex h this searchTerm (createIndex docs) docs
      = Some (Inr (filter ?hit (map ?entry ?rel)))"
    by (simp add: searchWithIndex_relevant comp_def)
  have shape: "filter ?hit (map ?entry ?rel)
      = filter ?hit (map (\<lambda>i. documentResults (docs ! i) (the (search h this searchTerm (doc_text (docs ! i)))))
          (relevantIndices searchTerm (createIndex docs)))"
    by (simp add: comp_def)
  have "set (filter ?hit (map ?entry ?rel)) \<subseteq> set whole"
    unfolding whole using sub by auto
  moreover have "\<forall>d \<in> set docs. \<forall>r.
      search h this searchTerm (doc_text d) = Some r \<longrightarrow> count r > 0 \<longrightarrow>
      (\<exists>w \<in> set (extractWords searchTerm). w \<in> set (extractWords (doc_text d))) \<longrightarrow>
      documentResults d r \<in> set whole \<and> documentResults d r \<in> set (filter ?hit (map ?entry ?rel))"
  proof (intro ballI allI impI)
    fix d r
    assume d: "d \<in> set docs" and r: "search h this searchTerm (doc_text d) = Some r"
      and hit: "count r > 0"
      and word: "\<exists>w \<in> set (extractWords searchTerm). w \<in> set (extractWords (doc_text d))"
    from d obtain i where "i < length docs" "d = docs ! i"
      by (auto simp: in_set_conv_nth)
    with word have "d \<in> set ?rel"
      unfolding rel by blast
    moreover from r have "?entry d = documentResults d r"
      by simp
    moreover from hit have "?hit (documentResults d r)"
      by (simp add: documentResults_def)
    ultimately show "documentResults d r \<in> set whole
        \<and> documentResults d r \<in> set (filter ?hit (map ?entry ?rel))"
      unfolding whole using d by force
  qed
  ultimately show ?thesis
    using indexed shape set_relevantIndices [of searchTerm docs] by blast
qed


text \<open>The first example of the documentation: the term \<open>brahma\<close> and the three documents
  of the multi-document example, without their metadata.\<close>

lemma variants_brahma:
  "generatePhoneticVariants [0x92C, 0x94D, 0x930, 0x939, 0x94D, 0x92E] = [[0x92C, 0x94D, 0x930, 0x939, 0x94D, 0x92E]]"
  by (simp add: variants_eval)

lemma marker_brahma: "hasEndingMarker [0x92C, 0x94D, 0x930, 0x939, 0x94D, 0x92E]"
  by (simp add: hasEndingMarker_def)

lemma search_brahma_first:
  "\<exists>m. search plain_host (constructed w no_options) [0x92C, 0x94D, 0x930, 0x939, 0x94D, 0x92E]
     [0x905, 0x925, 0x93E, 0x924, 0x94B, 0x20, 0x92C, 0x94D, 0x930, 0x939, 0x94D, 0x92E, 0x91C, 0x93F,
      0x91C, 0x94D, 0x91E, 0x93E, 0x938, 0x93E]
        = Some \<lparr> matches = [m], count = 1, searchTerm_r = Some [0x92C, 0x94D, 0x930, 0x939, 0x94D, 0x92E] \<rparr>
      \<and> position m = 6 \<and> length_m m = 6 \<and> matchedText m = [0x92C, 0x94D, 0x930, 0x939, 0x94D, 0x92E] \<and> type_m m = exact"
proof -
  let ?S = "constructed w no_options"
  let ?tx = "[0x905, 0x925, 0x93E, 0x924, 0x94B, 0x20, 0x92C, 0x94D, 0x930, 0x939, 0x94D, 0x92E, 0x91C, 0x93F,
      0x91C, 0x94D, 0x91E, 0x93E, 0x938, 0x93E] :: jstring"
  have first: "map_option (map (\<lambda>m. (position m, length_m m, matchedText m, type_m m)))
        (searchVariant (config ?S) [0x92C, 0x94D, 0x930, 0x939, 0x94D, 0x92E] ?tx [] [0x92C, 0x94D, 0x930, 0x939, 0x94D, 0x92E])
      = Some [(6, 6, [0x92C, 0x94D, 0x930, 0x939, 0x94D, 0x92E], exact)]"
    by (simp add: searchVariant_def loop_eval exec_eval)
  then obtain ms where ms: "searchVariant (config ?S) [0x92C, 0x94D, 0x930, 0x939, 0x94D, 0x92E] ?tx [] [0x92C, 0x94D, 0x930, 0x939, 0x94D, 0x92E] = Some ms"
      "map (\<lambda>m. (position m, length_m m, matchedText m, type_m m)) ms = [(6, 6, [0x92C, 0x94D, 0x930, 0x939, 0x94D, 0x92E], exact)]"
    by auto
  then obtain m where m: "ms = [m]" "position m = 6" "length_m m = 6"
      "matchedText m = [0x92C, 0x94D, 0x930, 0x939, 0x94D, 0x92E]" "type_m m = exact"
    by (auto simp: map_eq_Cons_conv)
  have "search plain_host ?S [0x92C, 0x94D, 0x930, 0x939, 0x94D, 0x92E] ?tx
      = Some \<lparr> matches = [m], count = 1, searchTerm_r = Some [0x92C, 0x94D, 0x930, 0x939, 0x94D, 0x92E] \<rparr>"
    using ms(1)
    by (simp add: search_def exactWordSearch_def plain_host_simps marker_brahma
          variants_brahma m(1) sortByPosition_def)
  with m show ?thesis
    by blast
qed

lemma search_brahma_second:
  "search plain_host (constructed w no_options) [0x92C, 0x94D, 0x930, 0x939, 0x94D, 0x92E]
     [0x91C, 0x928, 0x94D, 0x92E, 0x93E, 0x926, 0x94D, 0x92F, 0x938, 0x94D, 0x92F, 0x20, 0x92F, 0x924, 0x903]
   = Some \<lparr> matches = [], count = 0, searchTerm_r = Some [0x92C, 0x94D, 0x930, 0x939, 0x94D, 0x92E] \<rparr>"
proof -
  have "searchVariant (config (constructed w no_options)) [0x92C, 0x94D, 0x930, 0x939, 0x94D, 0x92E]
      [0x91C, 0x928, 0x94D, 0x92E, 0x93E, 0x926, 0x94D, 0x92F, 0x938, 0x94D, 0x92F, 0x20, 0x92F, 0x924, 0x903] [] [0x92C, 0x94D, 0x930, 0x939, 0x94D, 0x92E] = Some []"
    by (simp add: searchVariant_def loop_eval exec_eval)
  then show ?thesis
    by (simp add: search_def exactWordSearch_def plain_host_simps marker_brahma
          variants_brahma sortByPosition_def)
qed

lemma search_brahma_third:
  "search plain_host (constructed w no_options) [0x92C, 0x94D, 0x930, 0x939, 0x94D, 0x92E]
     [0x936, 0x93E, 0x938, 0x94D, 0x924, 0x94D, 0x930, 0x92F, 0x94B, 0x928, 0x93F, 0x924, 0x94D, 0x935,
      0x93E, 0x924, 0x94D]
   = Some \<lparr> matches = [], count = 0, searchTerm_r = Some [0x92C, 0x94D, 0x930, 0x939, 0x94D, 0x92E] \<rparr>"
proof -
  have "searchVariant (config (constructed w no_options)) [0x92C, 0x94D, 0x930, 0x939, 0x94D, 0x92E]
      [0x936, 0x93E, 0x938, 0x94D, 0x924, 0x94D, 0x930, 0x92F, 0x94B, 0x928, 0x93F, 0x924, 0x94D, 0x935,
      0x93E, 0x924, 0x94D] [] [0x92C, 0x94D, 0x930, 0x939, 0x94D, 0x92E] = Some []"
    by (simp add: searchVariant_def loop_eval exec_eval)
  then show ?thesis
    by (simp add: search_def exactWordSearch_def plain_host_simps marker_brahma
          variants_brahma sortByPosition_def)
qed

lemma relevantIndices_brahma:
  "relevantIndices [0x92C, 0x94D, 0x930, 0x939, 0x94D, 0x92E] (createIndex
     [\<lparr> doc_id = 1, doc_text = [0x905, 0x925, 0x93E, 0x924, 0x94B, 0x20, 0x92C, 0x94D, 0x930, 0x939, 0x94D, 0x92E, 0x91C, 0x93F,
      0x91C, 0x94D, 0x91E, 0x93E, 0x938, 0x93E], doc_metadata = None \<rparr>,
     \<lparr> doc_id = 2, doc_text = [0x91C, 0x928, 0x94D, 0x92E, 0x93E, 0x926, 0x94D, 0x92F, 0x938, 0x94D, 0x92F, 0x20, 0x92F, 0x924, 0x903], doc_metadata = None \<rparr>,
     \<lparr> doc_id = 3, doc_text = [0x936, 0x93E, 0x938, 0x94D, 0x924, 0x94D, 0x930, 0x92F, 0x94B, 0x928, 0x93F, 0x924, 0x94D, 0x935,
      0x93E, 0x924, 0x94D], doc_metadata = None \<rparr>]) = []"
proof -
  have words: "extractWords [0x905, 0x925, 0x93E, 0x924, 0x94B, 0x20, 0x92C, 0x94D, 0x930, 0x939, 0x94D, 0x92E, 0x91C, 0x93F,
      0x91C, 0x94D, 0x91E, 0x93E, 0x938, 0x93E]
      = [[0x905, 0x925, 0x93E, 0x924, 0x94B],
         [0x92C, 0x94D, 0x930, 0x939, 0x94D, 0x92E, 0x91C, 0x93F, 0x91C, 0x94D, 0x91E, 0x93E, 0x938, 0x93E]]"
    "extractWords [0x91C, 0x928, 0x94D, 0x92E, 0x93E, 0x926, 0x94D, 0x92F, 0x938, 0x94D, 0x92F, 0x20, 0x92F, 0x924, 0x903]
      = [[0x91C, 0x928, 0x94D, 0x92E, 0x93E, 0x926, 0x94D, 0x92F, 0x938, 0x94D, 0x92F], [0x92F, 0x924, 0x903]]"
    "extractWords [0x936, 0x93E, 0x938, 0x94D, 0x924, 0x94D, 0x930, 0x92F, 0x94B, 0x928, 0x93F, 0x924, 0x94D, 0x935,
      0x93E, 0x924, 0x94D]
      = [[0x936, 0x93E, 0x938, 0x94D, 0x924, 0x94D, 0x930, 0x92F, 0x94B, 0x928, 0x93F, 0x924, 0x94D, 0x935,
      0x93E, 0x924, 0x94D]]"
    "extractWords [0x92C, 0x94D, 0x930, 0x939, 0x94D, 0x92E] = [[0x92C, 0x94D, 0x930, 0x939, 0x94D, 0x92E]]"
    by (simp_all add: extractWords_def separator_def WhiteSpace_def)
  show ?thesis
    by (simp add: relevantIndices_def createIndex_def indexDocument_def words lookup_def)
qed

text \<open>
  Claim C5. When the full search over the documents returns, the search with the index
  built over the same documents returns too, and it is the full search of the documents
  that have a word in common with the search term, and of no others: its entries are
  entries of the full search, and it has the entry of every document in which the full
  search finds a match and whose words include a word of the search term.

  A document in which the term occurs only inside a longer word is therefore not
  searched. In the first example of the documentation, the full search for \<open>brahma\<close>
  finds the first of the three documents, where the term is the head of the second word,
  and the search with the index returns nothing.
\<close>

theorem searchWithIndex_misses_term_inside_word:
  "(\<forall>h this searchTerm docs whole.
      searchMultiple h this searchTerm (map Some docs) = Some (Inr whole) \<longrightarrow>
      (\<exists>rs. searchWithIndex h this searchTerm (createIndex docs) docs = Some (Inr rs)
                \<and> set rs \<subseteq> set whole
                \<and> (\<forall>d \<in> set docs. \<forall>r.
                      search h this searchTerm (doc_text d) = Some r \<longrightarrow> count r > 0 \<longrightarrow>
                      (\<exists>w \<in> set (extractWords searchTerm). w \<in> set (extractWords (doc_text d))) \<longrightarrow>
                      documentResults d r \<in> set whole \<and> documentResults d r \<in> set rs)
                \<and> rs = filter (\<lambda>e. count (results e) > 0)
                       (map (\<lambda>i. documentResults (docs ! i) (the (search h this searchTerm (doc_text (docs ! i)))))
                          (relevantIndices searchTerm (createIndex docs)))
                \<and> set (relevantIndices searchTerm (createIndex docs))
                     = {i. i < length docs \<and> (\<exists>w \<in> set (extractWords searchTerm).
                                                  w \<in> set (extractWords (doc_text (docs ! i))))}))
   \<and> (\<forall>w. \<exists>this e. new_SanskritSearch (Window w) no_options = Inr this
        \<and> searchMultiple plain_host this [0x92C, 0x94D, 0x930, 0x939, 0x94D, 0x92E] (map Some
             [\<lparr> doc_id = 1, doc_text = [0x905, 0x925, 0x93E, 0x924, 0x94B, 0x20, 0x92C, 0x94D, 0x930, 0x939, 0x94D, 0x92E, 0x91C, 0x93F,
              0x91C, 0x94D, 0x91E, 0x93E, 0x938, 0x93E], doc_metadata = None \<rparr>,
             \<lparr> doc_id = 2, doc_text = [0x91C, 0x928, 0x94D, 0x92E, 0x93E, 0x926, 0x94D, 0x92F, 0x938, 0x94D, 0x92F, 0x20, 0x92F, 0x924, 0x903], doc_metadata = None \<rparr>,
             \<lparr> doc_id = 3, doc_text = [0x936, 0x93E, 0x938, 0x94D, 0x924, 0x94D, 0x930, 0x92F, 0x94B, 0x928, 0x93F, 0x924, 0x94D, 0x935,
              0x93E, 0x924, 0x94D], doc_metadata = None \<rparr>])
           = Some (Inr [e])
        \<and> res_id e = 1 \<and> count (results e) = 1
        \<and> map (\<lambda>m. (position m, length_m m, matchedText m, type_m m)) (matches (results e))
             = [(6, 6, [0x92C, 0x94D, 0x930, 0x939, 0x94D, 0x92E], exact)]
        \<and> searchWithIndex plain_host this [0x92C, 0x94D, 0x930, 0x939, 0x94D, 0x92E]
             (createIndex
                [\<lparr> doc_id = 1, doc_text = [0x905, 0x925, 0x93E, 0x924, 0x94B, 0x20, 0x92C, 0x94D, 0x930, 0x939, 0x94D, 0x92E, 0x91C, 0x93F,
              0x91C, 0x94D, 0x91E, 0x93E, 0x938, 0x93E], doc_metadata = None \<rparr>,
             \<lparr> doc_id = 2, doc_text = [0x91C, 0x928, 0x94D, 0x92E, 0x93E, 0x926, 0x94D, 0x92F, 0x938, 0x94D, 0x92F, 0x20, 0x92F, 0x924, 0x903], doc_metadata = None \<rparr>,
             \<lparr> doc_id = 3, doc_text = [0x936, 0x93E, 0x938, 0x94D, 0x924, 0x94D, 0x930, 0x92F, 0x94B, 0x928, 0x93F, 0x924, 0x94D, 0x935,
              0x93E, 0x924, 0x94D], doc_metadata = None \<rparr>])
             [\<lparr> doc_id = 1, doc_text = [0x905, 0x925, 0x93E, 0x924, 0x94B, 0x20, 0x92C, 0x94D, 0x930, 0x939, 0x94D, 0x92E, 0x91C, 0x93F,
              0x91C, 0x94D, 0x91E, 0x93E, 0x938, 0x93E], doc_metadata = None \<rparr>,
             \<lparr> doc_id = 2, doc_text = [0x91C, 0x928, 0x94D, 0x92E, 0x93E, 0x926, 0x94D, 0x92F, 0x938, 0x94D, 0x92F, 0x20, 0x92F, 0x924, 0x903], doc_metadata = None \<rparr>,
             \<lparr> doc_id = 3, doc_text = [0x936, 0x93E, 0x938, 0x94D, 0x924, 0x94D, 0x930, 0x92F, 0x94B, 0x928, 0x93F, 0x924, 0x94D, 0x935,
              0x93E, 0x924, 0x94D], doc_metadata = None \<rparr>]
           = Some (Inr []))"
proof -
  have general: "\<forall>h this searchTerm docs whole.
      searchMultiple h this searchTerm (map Some docs) = Some (Inr whole) \<longrightarrow>
      (\<exists>rs. searchWithIndex h this searchTerm (createIndex docs) docs = Some (Inr rs)
                \<and> set rs \<subseteq> set whole
                \<and> (\<forall>d \<in> set docs. \<forall>r.
                      search h this searchTerm (doc_text d) = Some r \<longrightarrow> count r > 0 \<longrightarrow>
                      (\<exists>w \<in> set (extractWords searchTerm). w \<in> set (extractWords (doc_text d))) \<longrightarrow>
                      documentResults d r \<in> set whole \<and> documentResults d r \<in> set rs)
                \<and> rs = filter (\<lambda>e. count (results e) > 0)
                       (map (\<lambda>i. documentResults (docs ! i) (the (search h this searchTerm (doc_text (docs ! i)))))
                          (relevantIndices searchTerm (createIndex docs)))
                \<and> set (relevantIndices searchTerm (createIndex docs))
                     = {i. i < length docs \<and> (\<exists>w \<in> set (extractWords searchTerm).
                                                  w \<in> set (extractWords (doc_text (docs ! i))))})"
    by (intro allI impI) (rule searchWithIndex_characterised)
  have failing: "\<forall>w. \<exists>this e. new_SanskritSearch (Window w) no_options = Inr this
        \<and> searchMultiple plain_host this [0x92C, 0x94D, 0x930, 0x939, 0x94D, 0x92E] (map Some
             [\<lparr> doc_id = 1, doc_text = [0x905, 0x925, 0x93E, 0x924, 0x94B, 0x20, 0x92C, 0x94D, 0x930, 0x939, 0x94D, 0x92E, 0x91C, 0x93F,
              0x91C, 0x94D, 0x91E, 0x93E, 0x938, 0x93E], doc_metadata = None \<rparr>,
             \<lparr> doc_id = 2, doc_text = [0x91C, 0x928, 0x94D, 0x92E, 0x93E, 0x926, 0x94D, 0x92F, 0x938, 0x94D, 0x92F, 0x20, 0x92F, 0x924, 0x903], doc_metadata = None \<rparr>,
             \<lparr> doc_id = 3, doc_text = [0x936, 0x93E, 0x938, 0x94D, 0x924, 0x94D, 0x930, 0x92F, 0x94B, 0x928, 0x93F, 0x924, 0x94D, 0x935,
              0x93E, 0x924, 0x94D], doc_metadata = None \<rparr>])
           = Some (Inr [e])
        \<and> res_id e = 1 \<and> count (results e) = 1
        \<and> map (\<lambda>m. (position m, length_m m, matchedText m, type_m m)) (matches (results e))
             = [(6, 6, [0x92C, 0x94D, 0x930, 0x939, 0x94D, 0x92E], exact)]
        \<and> searchWithIndex plain_host this [0x92C, 0x94D, 0x930, 0x939, 0x94D, 0x92E]
             (createIndex
                [\<lparr> doc_id = 1, doc_text = [0x905, 0x925, 0x93E, 0x924, 0x94B, 0x20, 0x92C, 0x94D, 0x930, 0x939, 0x94D, 0x92E, 0x91C, 0x93F,
              0x91C, 0x94D, 0x91E, 0x93E, 0x938, 0x93E], doc_metadata = None \<rparr>,
             \<lparr> doc_id = 2, doc_text = [0x91C, 0x928, 0x94D, 0x92E, 0x93E, 0x926, 0x94D, 0x92F, 0x938, 0x94D, 0x92F, 0x20, 0x92F, 0x924, 0x903], doc_metadata = None \<rparr>,
             \<lparr> doc_id = 3, doc_text = [0x936, 0x93E, 0x938, 0x94D, 0x924, 0x94D, 0x930, 0x92F, 0x94B, 0x928, 0x93F, 0x924, 0x94D, 0x935,
              0x93E, 0x924, 0x94D], doc_metadata = None \<rparr>])
             [\<lparr> doc_id = 1, doc_text = [0x905, 0x925, 0x93E, 0x924, 0x94B, 0x20, 0x92C, 0x94D, 0x930, 0x939, 0x94D, 0x92E, 0x91C, 0x93F,
              0x91C, 0x94D, 0x91E, 0x93E, 0x938, 0x93E], doc_metadata = None \<rparr>,
             \<lparr> doc_id = 2, doc_text = [0x91C, 0x928, 0x94D, 0x92E, 0x93E, 0x926, 0x94D, 0x92F, 0x938, 0x94D, 0x92F, 0x20, 0x92F, 0x924, 0x903], doc_metadata = None \<rparr>,
             \<lparr> doc_id = 3, doc_text = [0x936, 0x93E, 0x938, 0x94D, 0x924, 0x94D, 0x930, 0x92F, 0x94B, 0x928, 0x93F, 0x924, 0x94D, 0x935,
              0x93E, 0x924, 0x94D], doc_metadata = None \<rparr>]
           = Some (Inr [])"
  proof
    fix w
    let ?S = "constructed w no_options"
    let ?d1 = "\<lparr> doc_id = 1, doc_text = [0x905, 0x925, 0x93E, 0x924, 0x94B, 0x20, 0x92C, 0x94D, 0x930, 0x939, 0x94D, 0x92E, 0x91C, 0x93F,
      0x91C, 0x94D, 0x91E, 0x93E, 0x938, 0x93E], doc_metadata = None \<rparr>"
    from search_brahma_first [of w] obtain m where
      first: "search plain_host ?S [0x92C, 0x94D, 0x930, 0x939, 0x94D, 0x92E] (doc_text ?d1)
          = Some \<lparr> matches = [m], count = 1, searchTerm_r = Some [0x92C, 0x94D, 0x930, 0x939, 0x94D, 0x92E] \<rparr>"
      and m: "position m = 6" "length_m m = 6" "matchedText m = [0x92C, 0x94D, 0x930, 0x939, 0x94D, 0x92E]" "type_m m = exact"
      by auto
    let ?e = "documentResults ?d1 \<lparr> matches = [m], count = 1, searchTerm_r = Some [0x92C, 0x94D, 0x930, 0x939, 0x94D, 0x92E] \<rparr>"
    have whole: "searchMultiple plain_host ?S [0x92C, 0x94D, 0x930, 0x939, 0x94D, 0x92E] (map Some
             [\<lparr> doc_id = 1, doc_text = [0x905, 0x925, 0x93E, 0x924, 0x94B, 0x20, 0x92C, 0x94D, 0x930, 0x939, 0x94D, 0x92E, 0x91C, 0x93F,
      0x91C, 0x94D, 0x91E, 0x93E, 0x938, 0x93E], doc_metadata = None \<rparr>,
     \<lparr> doc_id = 2, doc_text = [0x91C, 0x928, 0x94D, 0x92E, 0x93E, 0x926, 0x94D, 0x92F, 0x938, 0x94D, 0x92F, 0x20, 0x92F, 0x924, 0x903], doc_metadata = None \<rparr>,
     \<lparr> doc_id = 3, doc_text = [0x936, 0x93E, 0x938, 0x94D, 0x924, 0x94D, 0x930, 0x92F, 0x94B, 0x928, 0x93F, 0x924, 0x94D, 0x935,
      0x93E, 0x924, 0x94D], doc_metadata = None \<rparr>])
           = Some (Inr [?e])"
      using first by (simp add: searchMultiple_def search_brahma_second search_brahma_third
            documentResults_def)
    have indexed: "searchWithIndex plain_host ?S [0x92C, 0x94D, 0x930, 0x939, 0x94D, 0x92E]
             (createIndex
                [\<lparr> doc_id = 1, doc_text = [0x905, 0x925, 0x93E, 0x924, 0x94B, 0x20, 0x92C, 0x94D, 0x930, 0x939, 0x94D, 0x92E, 0x91C, 0x93F,
      0x91C, 0x94D, 0x91E, 0x93E, 0x938, 0x93E], doc_metadata = None \<rparr>,
     \<lparr> doc_id = 2, doc_text = [0x91C, 0x928, 0x94D, 0x92E, 0x93E, 0x926, 0x94D, 0x92F, 0x938, 0x94D, 0x92F, 0x20, 0x92F, 0x924, 0x903], doc_metadata = None \<rparr>,
     \<lparr> doc_id = 3, doc_text = [0x936, 0x93E, 0x938, 0x94D, 0x924, 0x94D, 0x930, 0x92F, 0x94B, 0x928, 0x93F, 0x924, 0x94D, 0x935,
      0x93E, 0x924, 0x94D], doc_metadata = None \<rparr>])
             [\<lparr> doc_id = 1, doc_text = [0x905, 0x925, 0x93E, 0x924, 0x94B, 0x20, 0x92C, 0x94D, 0x930, 0x939, 0x94D, 0x92E, 0x91C, 0x93F,
      0x91C, 0x94D, 0x91E, 0x93E, 0x938, 0x93E], doc_metadata = None \<rparr>,
     \<lparr> doc_id = 2, doc_text = [0x91C, 0x928, 0x94D, 0x92E, 0x93E, 0x926, 0x94D, 0x92F, 0x938, 0x94D, 0x92F, 0x20, 0x92F, 0x924, 0x903], doc_metadata = None \<rparr>,
     \<lparr> doc_id = 3, doc_text = [0x936, 0x93E, 0x938, 0x94D, 0x924, 0x94D, 0x930, 0x92F, 0x94B, 0x928, 0x93F, 0x924, 0x94D, 0x935,
      0x93E, 0x924, 0x94D], doc_metadata = None \<rparr>]
           = Some (Inr [])"
      unfolding searchWithIndex_relevant relevantIndices_brahma
      by (simp add: searchMultiple_def)
    have made: "new_SanskritSearch (Window w) no_options = Inr ?S"
      by simp
    have entry: "res_id ?e = 1" "count (results ?e) = 1"
        "map (\<lambda>m. (position m, length_m m, matchedText m, type_m m)) (matches (results ?e))
             = [(6, 6, [0x92C, 0x94D, 0x930, 0x939, 0x94D, 0x92E], exact)]"
      using m by (simp_all add: documentResults_def)
    show "\<exists>this e. new_SanskritSearch (Window w) no_options = Inr this
        \<and> searchMultiple plain_host this [0x92C, 0x94D, 0x930, 0x939, 0x94D, 0x92E] (map Some
             [\<lparr> doc_id = 1, doc_text = [0x905, 0x925, 0x93E, 0x924, 0x94B, 0x20, 0x92C, 0x94D, 0x930, 0x939, 0x94D, 0x92E, 0x91C, 0x93F,
              0x91C, 0x94D, 0x91E, 0x93E, 0x938, 0x93E], doc_metadata = None \<rparr>,
             \<lparr> doc_id = 2, doc_text = [0x91C, 0x928, 0x94D, 0x92E, 0x93E, 0x926, 0x94D, 0x92F, 0x938, 0x94D, 0x92F, 0x20, 0x92F, 0x924, 0x903], doc_metadata = None \<rparr>,
             \<lparr> doc_id = 3, doc_text = [0x936, 0x93E, 0x938, 0x94D, 0x924, 0x94D, 0x930, 0x92F, 0x94B, 0x928, 0x93F, 0x924, 0x94D, 0x935,
              0x93E, 0x924, 0x94D], doc_metadata = None \<rparr>])
           = Some (Inr [e])
        \<and> res_id e = 1 \<and> count (results e) = 1
        \<and> map (\<lambda>m. (position m, length_m m, matchedText m, type_m m)) (matches (results e))
             = [(6, 6, [0x92C, 0x94D, 0x930, 0x939, 0x94D, 0x92E], exact)]
        \<and> searchWithIndex plain_host this [0x92C, 0x94D, 0x930, 0x939, 0x94D, 0x92E]
             (createIndex
                [\<lparr> doc_id = 1, doc_text = [0x905, 0x925, 0x93E, 0x924, 0x94B, 0x20, 0x92C, 0x94D, 0x930, 0x939, 0x94D, 0x92E, 0x91C, 0x93F,
              0x91C, 0x94D, 0x91E, 0x93E, 0x938, 0x93E], doc_metadata = None \<rparr>,
             \<lparr> doc_id = 2, doc_text = [0x91C, 0x928, 0x94D, 0x92E, 0x93E, 0x926, 0x94D, 0x92F, 0x938, 0x94D, 0x92F, 0x20, 0x92F, 0x924, 0x903], doc_metadata = None \<rparr>,
             \<lparr> doc_id = 3, doc_text = [0x936, 0x93E, 0x938, 0x94D, 0x924, 0x94D, 0x930, 0x92F, 0x94B, 0x928, 0x93F, 0x924, 0x94D, 0x935,
              0x93E, 0x924, 0x94D], doc_metadata = None \<rparr>])
             [\<lparr> doc_id = 1, doc_text = [0x905, 0x925, 0x93E, 0x924, 0x94B, 0x20, 0x92C, 0x94D, 0x930, 0x939, 0x94D, 0x92E, 0x91C, 0x93F,
              0x91C, 0x94D, 0x91E, 0x93E, 0x938, 0x93E], doc_metadata = None \<rparr>,
             \<lparr> doc_id = 2, doc_text = [0x91C, 0x928, 0x94D, 0x92E, 0x93E, 0x926, 0x94D, 0x92F, 0x938, 0x94D, 0x92F, 0x20, 0x92F, 0x924, 0x903], doc_metadata = None \<rparr>,
             \<lparr> doc_id = 3, doc_text = [0x936, 0x93E, 0x938, 0x94D, 0x924, 0x94D, 0x930, 0x92F, 0x94B, 0x928, 0x93F, 0x924, 0x94D, 0x935,
              0x93E, 0x924, 0x94D], doc_metadata = None \<rparr>]
           = Some (Inr [])"
      by (rule exI [of _ ?S], rule exI [of _ ?e]) (intro conjI made whole entry indexed)
  qed
  from general failing show ?thesis
    by (intro conjI)
qed

text \<open>The witness: one document, \<open>ka anusvara\<close> twice, and the term \<open>ka anusvara\<close>, which is
  a word of the document.\<close>

theorem searchWithIndex_misses_term_inside_word_witness:
  "\<exists>this r rs. new_SanskritSearch (Window True) (no_options\<lparr>maxResults_opt := Some 1\<rparr>) = Inr this
     \<and> search plain_host this [0x915, 0x902] [0x915, 0x902, 0x20, 0x20, 0x915, 0x902] = Some r
     \<and> count r = 2
     \<and> searchWithIndex plain_host this [0x915, 0x902]
           (createIndex [\<lparr> doc_id = 7, doc_text = [0x915, 0x902, 0x20, 0x20, 0x915, 0x902],
                           doc_metadata = None \<rparr>])
           [\<lparr> doc_id = 7, doc_text = [0x915, 0x902, 0x20, 0x20, 0x915, 0x902],
               doc_metadata = None \<rparr>]
         = Some (Inr rs)
     \<and> \<lparr> res_id = 7, res_metadata = [], results = r \<rparr> \<in> set rs"
proof -
  let ?S = "constructed True (no_options\<lparr>maxResults_opt := Some 1\<rparr>)"
  let ?d = "\<lparr> doc_id = 7, doc_text = [0x915, 0x902, 0x20, 0x20, 0x915, 0x902], doc_metadata = None \<rparr>"
  from search_kam_twice [of True] obtain r where
    r: "search plain_host ?S [0x915, 0x902] (doc_text ?d) = Some r" "count r = 2"
    by auto
  then have "\<forall>d \<in> set [?d]. search plain_host ?S [0x915, 0x902] (doc_text d) \<noteq> None"
    by simp
  from searchMultiple_all [OF this] obtain whole where
    whole: "searchMultiple plain_host ?S [0x915, 0x902] (map Some [?d]) = Some (Inr whole)"
    by blast
  have word: "\<exists>w \<in> set (extractWords [0x915, 0x902]). w \<in> set (extractWords (doc_text ?d))"
    by (simp add: extractWords_def separator_def WhiteSpace_def)
  from searchWithIndex_misses_term_inside_word [THEN conjunct1, rule_format, OF whole] obtain rs where
    rs: "searchWithIndex plain_host ?S [0x915, 0x902] (createIndex [?d]) [?d] = Some (Inr rs)"
    and each: "\<forall>d \<in> set [?d]. \<forall>r.
        search plain_host ?S [0x915, 0x902] (doc_text d) = Some r \<longrightarrow> count r > 0 \<longrightarrow>
        (\<exists>w \<in> set (extractWords [0x915, 0x902]). w \<in> set (extractWords (doc_text d))) \<longrightarrow>
        documentResults d r \<in> set whole \<and> documentResults d r \<in> set rs"
    by blast
  from each r word have "documentResults ?d r \<in> set rs"
    by simp
  then have "\<lparr> res_id = 7, res_metadata = [], results = r \<rparr> \<in> set rs"
    by (simp add: documentResults_def)
  moreover have "new_SanskritSearch (Window True) (no_options\<lparr>maxResults_opt := Some 1\<rparr>) = Inr ?S"
    by simp
  ultimately show ?thesis
    using r rs by auto
qed


end
